theory Spec2Isabelle
  imports Complex_Main "HOL-Library.Signed_Division"
begin

section \<open>The ray caster of Character.h\<close>

text \<open>
  The class \<open>Character\<close> of \<open>src/Character.h\<close> holds a viewpoint (centre, direction vector,
  camera plane) and casts one ray per screen column through a grid of 32 by 32 blocks.

  Numbers. A C++ \<open>int\<close> is modelled as an unbounded \<open>int\<close>: the only \<open>int\<close> arithmetic of
  the class is \<open>%\<close> by 32, indexing and the accumulation of a pixel position, and the world
  of the program is 1024 by 512 pixels. A \<open>float\<close> or \<open>double\<close> is modelled as a \<open>real\<close>:
  rounding error, infinities and NaN are outside the model, with two exceptions. A
  floating-point division is modelled by \<open>fdiv\<close>, which has no (finite) value for a zero
  divisor. And the integer that \<open>std::round\<close> returns in the traversal loop is not computed
  from the exact value of its argument: the machine rounds the binary64 value, which
  differs from the exact one by the rounding errors of the operations before, so that
  where the exact value is halfway between two integers, or close to it, the result may
  be either of them. The model takes that integer from a parameter, the rounding of the
  run (one function for each column, iteration and axis). The theorems assume of it at
  most that the integer lies between the floor and the ceiling of the exact value
  (\<open>roundsNear\<close>), as it does whenever the binary64 value is less than 1/2 away from the
  exact one; \<open>cround\<close>, which rounds the exact value, is one such rounding. The concrete
  inputs used below are small integers for which the positions, materials and
  orientations that the source computes in IEEE arithmetic are those of the model with
  \<open>cround\<close> (a distance such as \<open>sqrt 512\<close> is rounded there).

  Undefined behaviour. An index outside a \<open>std::vector\<close> is a value \<open>Inl OutOfRange\<close> of
  the model; a non-finite floating-point value that the program would go on to use is
  \<open>Inl NonFinite\<close>. The traversal loop of \<open>calcRays\<close> has no iteration bound in the source;
  the model gives it fuel, and \<open>Inl FuelExhausted\<close> says that the fuel did not suffice.
\<close>

subsection \<open>Constants and data\<close>

definition MOVEMENT_SPEED :: real where
  "MOVEMENT_SPEED = 2"

definition BLOCK_WIDTH :: real where
  "BLOCK_WIDTH = 32"

datatype movementDirection = UP | DOWN | LEFT | RIGHT

datatype Alignment = horizontal | vertical | unknown

record hitDetails =
  distance :: real
  color :: int
  alignment :: Alignment

text \<open>The default member initialisers of \<open>struct hitDetails\<close>.\<close>

definition newHitDetails :: hitDetails where
  "newHitDetails = \<lparr>distance = 0, color = 0, alignment = unknown\<rparr>"

type_synonym Vector2f = "real \<times> real"

text \<open>
  The numeric state of a \<open>Character\<close>. \<open>charObject\<close> is the position of the SFML circle;
  \<open>directionRay\<close> and \<open>cameraPlane\<close> are the positions of the two vertices of each array.
\<close>

record Character =
  characterRadius :: real
  directionRay :: "Vector2f \<times> Vector2f"
  cameraPlane :: "Vector2f \<times> Vector2f"
  charObject :: Vector2f
  dirX :: real
  dirY :: real
  cameraPlaneX :: real
  cameraPlaneY :: real
  center :: Vector2f

datatype error = OutOfRange | NonFinite | FuelExhausted

text \<open>
  The rounding of one column: the integer returned by the \<open>std::round\<close> of iteration \<open>k\<close>
  (counted from 0) for the X or the Y axis, as a function of the exact value of its
  argument.
\<close>

datatype axis = XAxis | YAxis

type_synonym rounding = "nat \<Rightarrow> axis \<Rightarrow> real \<Rightarrow> int"

text \<open>Sequencing: the first undefined behaviour ends the computation.\<close>

definition andThen :: "error + 'a \<Rightarrow> ('a \<Rightarrow> error + 'b) \<Rightarrow> error + 'b" where
  "andThen r f = (case r of Inl e \<Rightarrow> Inl e | Inr v \<Rightarrow> f v)"

subsection \<open>Arithmetic of the source language\<close>

text \<open>Conversion of a floating-point value to \<open>int\<close> truncates toward zero.\<close>

definition trunc :: "real \<Rightarrow> int" where
  "trunc r = (if 0 \<le> r then \<lfloor>r\<rfloor> else \<lceil>r\<rceil>)"

text \<open>
  \<open>std::round\<close> rounds to the nearest integer, halfway cases away from zero; \<open>cround\<close> is
  that function on the exact value.
\<close>

definition cround :: "real \<Rightarrow> int" where
  "cround r = (if 0 \<le> r then \<lfloor>r + 1 / 2\<rfloor> else - \<lfloor>- r + 1 / 2\<rfloor>)"

text \<open>Floating-point division: a zero divisor gives an infinity or NaN, no finite value.\<close>

definition fdiv :: "real \<Rightarrow> real \<Rightarrow> real option" where
  "fdiv a b = (if b = 0 then None else Some (a / b))"

subsection \<open>Character::getCharacterCenter, move, rotate, updateMovement\<close>

definition getCharacterCenter :: "Character \<Rightarrow> Vector2f" where
  "getCharacterCenter c =
     (fst (charObject c) + characterRadius c, snd (charObject c) + characterRadius c)"

definition move :: "real \<Rightarrow> real \<Rightarrow> Character \<Rightarrow> Character" where
  "move xDistance yDistance c =
     c\<lparr>charObject := (fst (charObject c) + xDistance, snd (charObject c) + yDistance)\<rparr>"

definition rotate :: "movementDirection \<Rightarrow> Character \<Rightarrow> Character" where
  "rotate dir c =
     (let oldDirX = dirX c;
          spinDir = (if dir = LEFT then - 1 else 1 :: real);
          newDirX = dirX c * cos (spinDir * 0.01) - dirY c * sin (spinDir * 0.01);
          newDirY = oldDirX * sin (spinDir * 0.01) + dirY c * cos (spinDir * 0.01);
          directionRayEnd = (fst (getCharacterCenter c) + newDirX,
                             snd (getCharacterCenter c) + newDirY);
          oldPlaneX = cameraPlaneX c;
          newPlaneX = cameraPlaneX c * cos (spinDir * 0.01)
                        - cameraPlaneY c * sin (spinDir * 0.01);
          newPlaneY = oldPlaneX * sin (spinDir * 0.01)
                        + cameraPlaneY c * cos (spinDir * 0.01);
          startPlanePosition = directionRayEnd;
          endPlanePosition = (fst startPlanePosition + newPlaneX,
                              snd startPlanePosition + newPlaneY)
      in c\<lparr>dirX := newDirX, dirY := newDirY,
            directionRay := (getCharacterCenter c, directionRayEnd),
            cameraPlaneX := newPlaneX, cameraPlaneY := newPlaneY,
            cameraPlane := (startPlanePosition, endPlanePosition)\<rparr>)"

text \<open>A sequence of \<open>rotate\<close> calls, first element first.\<close>

fun rotateAll :: "movementDirection list \<Rightarrow> Character \<Rightarrow> Character" where
  "rotateAll [] c = c"
| "rotateAll (d # ds) c = rotateAll ds (rotate d c)"

definition shift :: "real \<Rightarrow> real \<Rightarrow> Vector2f \<Rightarrow> Vector2f" where
  "shift xAdjustment yAdjustment p = (fst p + xAdjustment, snd p + yAdjustment)"

definition updateMovement :: "movementDirection \<Rightarrow> Character \<Rightarrow> Character" where
  "updateMovement direction c =
     (let (xAdjustment, yAdjustment, c1) =
            (case direction of
               LEFT \<Rightarrow> (0 - MOVEMENT_SPEED, 0,
                         (move (- MOVEMENT_SPEED) 0 c)
                           \<lparr>center := (fst (center c) - MOVEMENT_SPEED, snd (center c))\<rparr>)
             | RIGHT \<Rightarrow> (0 + MOVEMENT_SPEED, 0,
                          move MOVEMENT_SPEED 0
                            (c\<lparr>center := (fst (center c) + MOVEMENT_SPEED, snd (center c))\<rparr>))
             | UP \<Rightarrow> (0, 0 - MOVEMENT_SPEED,
                       move 0 (- MOVEMENT_SPEED)
                         (c\<lparr>center := (fst (center c), snd (center c) - MOVEMENT_SPEED)\<rparr>))
             | DOWN \<Rightarrow> (0, 0 + MOVEMENT_SPEED,
                         move 0 MOVEMENT_SPEED
                           (c\<lparr>center := (fst (center c), snd (center c) + MOVEMENT_SPEED)\<rparr>)))
      in c1\<lparr>cameraPlane := (shift xAdjustment yAdjustment (fst (cameraPlane c1)),
                             shift xAdjustment yAdjustment (snd (cameraPlane c1))),
             directionRay := (shift xAdjustment yAdjustment (fst (directionRay c1)),
                              shift xAdjustment yAdjustment (snd (directionRay c1)))\<rparr>)"

subsection \<open>Character::calcNewDistance\<close>

text \<open>\<open>%\<close> on \<open>int\<close> truncates toward zero: it is \<open>smod\<close>.\<close>

definition calcNewDistance :: "int \<Rightarrow> real \<Rightarrow> real \<Rightarrow> real" where
  "calcNewDistance vertex rayDir deltaDist =
     (let distance0 = real_of_int (vertex smod trunc BLOCK_WIDTH);
          distance1 =
            (if rayDir < 0 \<and> distance0 = 0 then BLOCK_WIDTH
             else if rayDir \<ge> 0 then
               (let d = BLOCK_WIDTH - distance0 in if d = 0 then BLOCK_WIDTH else d)
             else distance0)
      in (distance1 / BLOCK_WIDTH) * deltaDist)"

subsection \<open>Character::checkForHit\<close>

text \<open>\<open>worldMap[y][x]\<close>: the row is indexed first, then the column.\<close>

definition cell :: "int list list \<Rightarrow> int \<Rightarrow> int \<Rightarrow> error + int" where
  "cell worldMap y x =
     (if 0 \<le> y \<and> y < int (length worldMap)
      then (if 0 \<le> x \<and> x < int (length (worldMap ! nat y))
            then Inr (worldMap ! nat y ! nat x) else Inl OutOfRange)
      else Inl OutOfRange)"

text \<open>
  The result is the returned \<open>bool\<close> and the \<open>hitDetail\<close> reference parameter after the call.
  \<open>||\<close> and the \<open>else if\<close> chain read a cell only when the cells before it were zero.
\<close>

definition checkForHit ::
  "real \<Rightarrow> real \<Rightarrow> hitDetails \<Rightarrow> int list list \<Rightarrow> error + (bool \<times> hitDetails)" where
  "checkForHit xIndex yIndex hitDetail worldMap =
     (if real_of_int \<lfloor>xIndex\<rfloor> = xIndex \<and> real_of_int \<lfloor>yIndex\<rfloor> = yIndex then
        (let x = trunc xIndex; y = trunc yIndex in
         andThen (cell worldMap y x) (\<lambda>v1.
         if v1 \<noteq> 0 then Inr (True, hitDetail\<lparr>color := v1\<rparr>)
         else andThen (cell worldMap (y - 1) (x - 1)) (\<lambda>v2.
         if v2 \<noteq> 0 then Inr (True, hitDetail\<lparr>color := v2\<rparr>)
         else andThen (cell worldMap y (x - 1)) (\<lambda>v3.
         if v3 \<noteq> 0 then Inr (True, hitDetail\<lparr>color := v3\<rparr>)
         else andThen (cell worldMap (y - 1) x) (\<lambda>v4.
         if v4 \<noteq> 0 then Inr (True, hitDetail\<lparr>color := v4\<rparr>)
         else Inr (False, hitDetail))))))
      else if real_of_int \<lfloor>xIndex\<rfloor> = xIndex then
        (let x = trunc xIndex; y = \<lfloor>yIndex\<rfloor> in
         andThen (cell worldMap y x) (\<lambda>v1.
         if v1 \<noteq> 0 then Inr (True, hitDetail\<lparr>alignment := vertical, color := v1\<rparr>)
         else andThen (cell worldMap y (x - 1)) (\<lambda>v2.
         if v2 \<noteq> 0 then Inr (True, hitDetail\<lparr>alignment := vertical, color := v2\<rparr>)
         else Inr (False, hitDetail))))
      else if real_of_int \<lfloor>yIndex\<rfloor> = yIndex then
        (let y = trunc yIndex; x = \<lfloor>xIndex\<rfloor> in
         andThen (cell worldMap y x) (\<lambda>v1.
         if v1 \<noteq> 0 then Inr (True, hitDetail\<lparr>alignment := horizontal, color := v1\<rparr>)
         else andThen (cell worldMap (y - 1) x) (\<lambda>v2.
         if v2 \<noteq> 0 then Inr (True, hitDetail\<lparr>alignment := horizontal, color := v2\<rparr>)
         else Inr (False, hitDetail))))
      else Inr (False, hitDetail))"

subsection \<open>Character::calcRays\<close>

text \<open>A floating-point value the program goes on to use has to be finite.\<close>

definition finite_value :: "real option \<Rightarrow> error + real" where
  "finite_value v = (case v of None \<Rightarrow> Inl NonFinite | Some r \<Rightarrow> Inr r)"

definition cameraX :: "int \<Rightarrow> int \<Rightarrow> real option" where
  "cameraX i screenWidth =
     map_option (\<lambda>q. q - 1) (fdiv (2 * real_of_int i) (real_of_int screenWidth))"

text \<open>
  The two quotients are computed before the test for a zero component; the test then
  decides whether the quotient is used.
\<close>

definition xMultiplier :: "real \<Rightarrow> real option" where
  "xMultiplier rayDirX = fdiv 32 \<bar>rayDirX\<bar>"

definition yMultiplier :: "real \<Rightarrow> real option" where
  "yMultiplier rayDirY = fdiv 32 \<bar>rayDirY\<bar>"

definition deltaDistX :: "real \<Rightarrow> real \<Rightarrow> real option" where
  "deltaDistX rayDirX rayDirY =
     (let hypoLength = sqrt (rayDirX * rayDirX + rayDirY * rayDirY);
          xm = xMultiplier rayDirX;
          d = (if rayDirX = 0 then Some (10 ^ 30) else map_option (\<lambda>m. m * hypoLength) xm)
      in map_option (\<lambda>d. if rayDirX < 0 then d * - 1 else d) d)"

definition deltaDistY :: "real \<Rightarrow> real \<Rightarrow> real option" where
  "deltaDistY rayDirX rayDirY =
     (let hypoLength = sqrt (rayDirX * rayDirX + rayDirY * rayDirY);
          ym = yMultiplier rayDirY;
          d = (if rayDirY = 0 then Some (10 ^ 30) else map_option (\<lambda>m. m * hypoLength) ym)
      in map_option (\<lambda>d. if rayDirY < 0 then d * - 1 else d) d)"

text \<open>The initial side distance of one axis, from the centre coordinate of that axis.\<close>

definition initialSideDist :: "real \<Rightarrow> real \<Rightarrow> real \<Rightarrow> real" where
  "initialSideDist centerCoord rayDir deltaDist =
     (if rayDir < 0 then (real_of_int (trunc centerCoord smod 32) / 32) * deltaDist
      else ((32 - real_of_int (trunc centerCoord smod 32)) / 32) * deltaDist)"

text \<open>The variables that the traversal loop of one column changes.\<close>

record rayState =
  mapX :: int
  mapY :: int
  sideDistX :: real
  sideDistY :: real
  temp :: hitDetails

text \<open>The state in which the traversal loop of a column is entered.\<close>

definition startState :: "Character \<Rightarrow> real \<Rightarrow> real \<Rightarrow> real \<Rightarrow> real \<Rightarrow> rayState" where
  "startState c rayDirX rayDirY ddX ddY =
     \<lparr>mapX = trunc (fst (center c)), mapY = trunc (snd (center c)),
      sideDistX = initialSideDist (fst (center c)) rayDirX ddX,
      sideDistY = initialSideDist (snd (center c)) rayDirY ddY,
      temp = newHitDetails\<rparr>"

text \<open>
  One iteration of \<open>while (!hit)\<close>: the new value of \<open>hit\<close> and the state after the body.
  \<open>roundX\<close> and \<open>roundY\<close> give the results of the two calls of \<open>std::round\<close>;
  \<open>ddX\<close> and \<open>ddY\<close> are the step distances \<open>deltaDistX\<close> and \<open>deltaDistY\<close> of the column;
  \<open>hits\<close> holds the results of the columns before column \<open>i\<close>.
\<close>

definition traverseStep ::
  "(real \<Rightarrow> int) \<Rightarrow> (real \<Rightarrow> int) \<Rightarrow> real \<Rightarrow> real \<Rightarrow> real \<Rightarrow> real \<Rightarrow> int \<Rightarrow> hitDetails list
     \<Rightarrow> int list list \<Rightarrow> rayState \<Rightarrow> error + (bool \<times> rayState)" where
  "traverseStep roundX roundY rayDirX rayDirY ddX ddY i hits worldMap s =
     (let adjustmentDistance =
            (if \<bar>sideDistX s\<bar> \<le> \<bar>sideDistY s\<bar> then sideDistX s else sideDistY s)
      in andThen (finite_value (fdiv adjustmentDistance ddX)) (\<lambda>qx.
         andThen (finite_value (fdiv adjustmentDistance ddY)) (\<lambda>qy.
         let adjustmentX = \<bar>qx * 32\<bar> * (if ddX > 0 then 1 else - 1);
             newMapX = mapX s + roundX adjustmentX;
             adjustmentY = \<bar>qy * 32\<bar> * (if ddY > 0 then 1 else - 1);
             newMapY = mapY s + roundY adjustmentY;
             newSideDistX = calcNewDistance newMapX rayDirX ddX;
             newSideDistY = calcNewDistance newMapY rayDirY ddY;
             xIndex = real_of_int newMapX / 32;
             yIndex = real_of_int newMapY / 32
         in andThen (checkForHit xIndex yIndex (temp s) worldMap) (\<lambda>(hit, newTemp).
            let s1 = s\<lparr>mapX := newMapX, mapY := newMapY,
                       sideDistX := newSideDistX, sideDistY := newSideDistY\<rparr>
            in if i \<noteq> 0 \<and> hit \<and> alignment newTemp = unknown then
                 (if 0 \<le> i - 1 \<and> i - 1 < int (length hits)
                  then Inr (hit, s1\<lparr>temp := newTemp\<lparr>alignment :=
                                                   alignment (hits ! nat (i - 1))\<rparr>\<rparr>)
                  else Inl OutOfRange)
               else Inr (hit, s1\<lparr>temp := newTemp\<rparr>)))))"

text \<open>
  The loop \<open>while (!hit)\<close>, entered with \<open>hit = false\<close> at iteration \<open>k\<close>: the body runs,
  then the test. The fuel bounds the number of iterations.
\<close>

fun traverse ::
  "rounding \<Rightarrow> nat \<Rightarrow> nat \<Rightarrow> real \<Rightarrow> real \<Rightarrow> real \<Rightarrow> real \<Rightarrow> int \<Rightarrow> hitDetails list
     \<Rightarrow> int list list \<Rightarrow> rayState \<Rightarrow> error + rayState" where
  "traverse rnd 0 k rayDirX rayDirY ddX ddY i hits worldMap s = Inl FuelExhausted"
| "traverse rnd (Suc fuel) k rayDirX rayDirY ddX ddY i hits worldMap s =
     andThen (traverseStep (rnd k XAxis) (rnd k YAxis) rayDirX rayDirY ddX ddY i hits
                worldMap s) (\<lambda>(hit, s1).
       if hit then Inr s1
       else traverse rnd fuel (Suc k) rayDirX rayDirY ddX ddY i hits worldMap s1)"

text \<open>
  The body of the \<open>for\<close> loop from the ray direction on: step distances, initial side
  distances, the traversal loop and the distance. The result is the \<open>hitDetails\<close> pushed
  to \<open>hits\<close> and the point pushed to \<open>rayCasts\<close>. \<open>rnd i\<close> is the rounding of column \<open>i\<close>.
\<close>

definition castRay ::
  "(int \<Rightarrow> rounding) \<Rightarrow> nat \<Rightarrow> Character \<Rightarrow> real \<Rightarrow> real \<Rightarrow> int list list \<Rightarrow> int
     \<Rightarrow> hitDetails list \<Rightarrow> error + (hitDetails \<times> Vector2f)" where
  "castRay rnd fuel c rayDirX rayDirY worldMap i hits =
     andThen (finite_value (deltaDistX rayDirX rayDirY)) (\<lambda>ddX.
     andThen (finite_value (deltaDistY rayDirX rayDirY)) (\<lambda>ddY.
     andThen (traverse (rnd i) fuel 0 rayDirX rayDirY ddX ddY i hits worldMap
                (startState c rayDirX rayDirY ddX ddY)) (\<lambda>s.
        let startX = fst (center c);
            startY = snd (center c);
            endX = real_of_int (mapX s);
            endY = real_of_int (mapY s);
            d = sqrt ((startX - endX) * (startX - endX)
                      + (startY - endY) * (startY - endY))
        in Inr ((temp s)\<lparr>distance := d\<rparr>,
                (real_of_int (mapX s), real_of_int (mapY s))))))"

text \<open>The body of the \<open>for\<close> loop for column \<open>i\<close>: the ray direction, then the cast.\<close>

definition castColumn ::
  "(int \<Rightarrow> rounding) \<Rightarrow> nat \<Rightarrow> Character \<Rightarrow> int \<Rightarrow> int list list \<Rightarrow> int \<Rightarrow> hitDetails list
     \<Rightarrow> error + (hitDetails \<times> Vector2f)" where
  "castColumn rnd fuel c screenWidth worldMap i hits =
     andThen (finite_value (cameraX i screenWidth)) (\<lambda>camX.
       let rayDirX = dirX c + cameraPlaneX c * camX;
           rayDirY = dirY c + cameraPlaneY c * camX
       in castRay rnd fuel c rayDirX rayDirY worldMap i hits)"

text \<open>The \<open>for\<close> loop from column \<open>i\<close> on, with the vectors built so far.\<close>

function calcRaysFrom ::
  "(int \<Rightarrow> rounding) \<Rightarrow> nat \<Rightarrow> Character \<Rightarrow> int \<Rightarrow> int list list \<Rightarrow> int \<Rightarrow> hitDetails list
     \<Rightarrow> Vector2f list \<Rightarrow> error + (hitDetails list \<times> Vector2f list)" where
  "calcRaysFrom rnd fuel c screenWidth worldMap i hits rayCasts =
     (if i \<le> screenWidth then
        (case castColumn rnd fuel c screenWidth worldMap i hits of
           Inl e \<Rightarrow> Inl e
         | Inr r \<Rightarrow> calcRaysFrom rnd fuel c screenWidth worldMap (i + 1)
                     (hits @ [fst r]) (rayCasts @ [snd r]))
      else Inr (hits, rayCasts))"
  by pat_completeness auto
termination
  by (relation "measure (\<lambda>(rnd, fuel, c, screenWidth, worldMap, i, hits, rayCasts).
                  nat (screenWidth + 1 - i))") auto

declare calcRaysFrom.simps [simp del]

text \<open>
  \<open>calcRays\<close> clears \<open>hits\<close> and starts with an empty \<open>rayCasts\<close>; the result is the final
  \<open>hits\<close> and the returned \<open>rayCasts\<close>.
\<close>

definition calcRays ::
  "(int \<Rightarrow> rounding) \<Rightarrow> nat \<Rightarrow> Character \<Rightarrow> int \<Rightarrow> int list list
     \<Rightarrow> error + (hitDetails list \<times> Vector2f list)" where
  "calcRays rnd fuel c screenWidth worldMap =
     calcRaysFrom rnd fuel c screenWidth worldMap 0 [] []"

subsection \<open>Runs of the traversal loop and roundings\<close>

text \<open>
  The loop, entered in state \<open>s\<close> at iteration \<open>k\<close>, is left after exactly \<open>n + 1\<close>
  iterations in state \<open>s'\<close>: \<open>n\<close> iterations without a hit, then one with a hit, and no
  undefined behaviour on the way.
\<close>

fun exitsAfter ::
  "rounding \<Rightarrow> nat \<Rightarrow> nat \<Rightarrow> real \<Rightarrow> real \<Rightarrow> real \<Rightarrow> real \<Rightarrow> int \<Rightarrow> hitDetails list
     \<Rightarrow> int list list \<Rightarrow> rayState \<Rightarrow> rayState \<Rightarrow> bool" where
  "exitsAfter rnd 0 k rayDirX rayDirY ddX ddY i hits worldMap s s' =
     (traverseStep (rnd k XAxis) (rnd k YAxis) rayDirX rayDirY ddX ddY i hits worldMap s
        = Inr (True, s'))"
| "exitsAfter rnd (Suc n) k rayDirX rayDirY ddX ddY i hits worldMap s s' =
     (case traverseStep (rnd k XAxis) (rnd k YAxis) rayDirX rayDirY ddX ddY i hits
             worldMap s of
        Inl e \<Rightarrow> False
      | Inr r \<Rightarrow> \<not> fst r
                 \<and> exitsAfter rnd n (Suc k) rayDirX rayDirY ddX ddY i hits worldMap (snd r) s')"

text \<open>
  What the theorems assume of a rounding: the integer lies between the floor and the
  ceiling of the exact value. The rounding with \<open>cround\<close> is the one of exact arithmetic.
\<close>

definition nearInteger :: "(real \<Rightarrow> int) \<Rightarrow> bool" where
  "nearInteger r = (\<forall>x. \<lfloor>x\<rfloor> \<le> r x \<and> r x \<le> \<lceil>x\<rceil>)"

definition roundsNear :: "(int \<Rightarrow> rounding) \<Rightarrow> bool" where
  "roundsNear rnd = (\<forall>i k a. nearInteger (rnd i k a))"

definition exactRound :: "int \<Rightarrow> rounding" where
  "exactRound i k a = cround"

subsection \<open>Notions of the specification\<close>

text \<open>Magnitudes of the facing vector and of the camera plane, and their dot product.\<close>

definition facingMagnitude :: "Character \<Rightarrow> real" where
  "facingMagnitude c = sqrt ((dirX c)\<^sup>2 + (dirY c)\<^sup>2)"

definition planeMagnitude :: "Character \<Rightarrow> real" where
  "planeMagnitude c = sqrt ((cameraPlaneX c)\<^sup>2 + (cameraPlaneY c)\<^sup>2)"

definition dotProduct :: "Character \<Rightarrow> real" where
  "dotProduct c = dirX c * cameraPlaneX c + dirY c * cameraPlaneY c"

text \<open>
  The hit classification in the words of the specification: a list of cells (row, column)
  is consulted in order and the first nonzero material is reported.
\<close>

fun firstNonzero :: "int list list \<Rightarrow> (int \<times> int) list \<Rightarrow> error + int option" where
  "firstNonzero worldMap [] = Inr None"
| "firstNonzero worldMap (rc # cells) =
     andThen (cell worldMap (fst rc) (snd rc)) (\<lambda>v.
       if v \<noteq> 0 then Inr (Some v) else firstNonzero worldMap cells)"

definition onGridLine :: "real \<Rightarrow> bool" where
  "onGridLine r = (r \<in> \<int>)"

definition cornerCells :: "int \<Rightarrow> int \<Rightarrow> (int \<times> int) list" where
  "cornerCells y x = [(y, x), (y - 1, x - 1), (y, x - 1), (y - 1, x)]"

definition classifyHit ::
  "real \<Rightarrow> real \<Rightarrow> hitDetails \<Rightarrow> int list list \<Rightarrow> error + (bool \<times> hitDetails)" where
  "classifyHit xIndex yIndex hitDetail worldMap =
     (let x = \<lfloor>xIndex\<rfloor>; y = \<lfloor>yIndex\<rfloor>;
          consulted =
            (if onGridLine xIndex \<and> onGridLine yIndex then cornerCells y x
             else if onGridLine xIndex then [(y, x), (y, x - 1)]
             else if onGridLine yIndex then [(y, x), (y - 1, x)]
             else []);
          orientation =
            (if onGridLine xIndex \<and> onGridLine yIndex then alignment hitDetail
             else if onGridLine xIndex then vertical
             else horizontal)
      in andThen (firstNonzero worldMap consulted) (\<lambda>found.
           case found of
             None \<Rightarrow> Inr (False, hitDetail)
           | Some material \<Rightarrow>
               Inr (True, hitDetail\<lparr>alignment := orientation, color := material\<rparr>)))"

text \<open>
  A grid with a solid border: a rectangle of rows whose first and last row and whose first
  and last column hold nonzero cells only.
\<close>

definition solidBorder :: "int list list \<Rightarrow> bool" where
  "solidBorder worldMap =
     (worldMap \<noteq> []
      \<and> list_all (\<lambda>row. row \<noteq> [] \<and> length row = length (hd worldMap)) worldMap
      \<and> list_all (\<lambda>v. v \<noteq> 0) (hd worldMap)
      \<and> list_all (\<lambda>v. v \<noteq> 0) (last worldMap)
      \<and> list_all (\<lambda>row. hd row \<noteq> 0 \<and> last row \<noteq> 0) worldMap)"

text \<open>
  The viewpoint is inside the border: the block of its pixel position \<open>(int(center.x),
  int(center.y))\<close> is a block of the grid, and not one of the last row or of the last
  column. A block of the first row or of the first column is allowed; the character of
  \<open>main\<close> starts in the block of row 0 and column 0.
\<close>

definition insideBorder :: "Character \<Rightarrow> int list list \<Rightarrow> bool" where
  "insideBorder c worldMap =
     (0 \<le> trunc (fst (center c))
      \<and> trunc (fst (center c)) < 32 * (int (length (hd worldMap)) - 1)
      \<and> 0 \<le> trunc (snd (center c))
      \<and> trunc (snd (center c)) < 32 * (int (length worldMap) - 1))"

text \<open>The position lies on a grid line of at least one axis.\<close>

definition onGridLines :: "Vector2f \<Rightarrow> bool" where
  "onGridLines p = (onGridLine (fst p / 32) \<or> onGridLine (snd p / 32))"

text \<open>
  The distance, in pixels along both axes, that separates a position from the far sides of
  the ring of border blocks in the direction of travel.
\<close>

definition travelLeft :: "int list list \<Rightarrow> real \<Rightarrow> real \<Rightarrow> int \<Rightarrow> int \<Rightarrow> int" where
  "travelLeft wm ddX ddY x y =
     (if ddX > 0 then 32 * (int (length (hd wm)) - 1) - x else x)
     + (if ddY > 0 then 32 * (int (length wm) - 1) - y else y)"

text \<open>A number of iterations that suffices for every ray inside a solid border.\<close>

definition enoughFuel :: "int list list \<Rightarrow> nat" where
  "enoughFuel worldMap = 32 * (length worldMap + length (hd worldMap)) + 2"

subsection \<open>Concrete data\<close>

text \<open>
  One empty block inside a ring of material 1, four empty blocks inside such a ring, and
  a grid without any wall.
\<close>

definition ring3 :: "int list list" where
  "ring3 = [[1, 1, 1], [1, 0, 1], [1, 1, 1]]"

definition ring4 :: "int list list" where
  "ring4 = [[1, 1, 1, 1], [1, 0, 0, 1], [1, 0, 0, 1], [1, 1, 1, 1]]"

definition open3 :: "int list list" where
  "open3 = [[0, 0, 0], [0, 0, 0], [0, 0, 0]]"

text \<open>
  A character as the constructor builds it with the arguments of \<open>main\<close> (radius 16,
  direction \<open>(-16, 0)\<close>, camera plane \<open>(0, 16)\<close>), moved so that its centre is \<open>(x, y)\<close>.
\<close>

definition viewer :: "real \<Rightarrow> real \<Rightarrow> Character" where
  "viewer x y =
     \<lparr>characterRadius = 16,
      directionRay = ((x, y), (x - 16, y)),
      cameraPlane = ((x - 16, y - 16), (x - 16, y + 16)),
      charObject = (x - 16, y - 16),
      dirX = - 16, dirY = 0, cameraPlaneX = 0, cameraPlaneY = 16,
      center = (x, y)\<rparr>"

text \<open>
  A character as the constructor builds it with the direction \<open>(16, 0)\<close> and the camera
  plane \<open>(0, 16)\<close>, moved so that its centre is \<open>(x, y)\<close>.
\<close>

definition viewerFacingRight :: "real \<Rightarrow> real \<Rightarrow> Character" where
  "viewerFacingRight x y =
     \<lparr>characterRadius = 16,
      directionRay = ((x, y), (x + 16, y)),
      cameraPlane = ((x + 16, y - 16), (x + 16, y + 16)),
      charObject = (x - 16, y - 16),
      dirX = 16, dirY = 0, cameraPlaneX = 0, cameraPlaneY = 16,
      center = (x, y)\<rparr>"

text \<open>
  What \<open>calcRays\<close> returns for \<open>viewer 48 48\<close>, screen width 2 and \<open>ring3\<close>: the three
  columns strike the corner \<open>(32, 32)\<close>, the wall at \<open>(32, 48)\<close> and the corner \<open>(32, 64)\<close>.
\<close>

definition ring3_hits :: "hitDetails list" where
  "ring3_hits = [\<lparr>distance = sqrt 512, color = 1, alignment = unknown\<rparr>,
                 \<lparr>distance = 16, color = 1, alignment = vertical\<rparr>,
                 \<lparr>distance = sqrt 512, color = 1, alignment = vertical\<rparr>]"

definition ring3_rayCasts :: "Vector2f list" where
  "ring3_rayCasts = [(32, 32), (32, 48), (32, 64)]"



section \<open>Properties\<close>

subsection \<open>Arithmetic helpers\<close>

lemma trunc_of_int [simp]: "trunc (real_of_int k) = k"
  by (simp add: trunc_def)

lemma trunc_numeral [simp]: "trunc (numeral n) = numeral n" "trunc 0 = 0" "trunc 1 = 1"
  by (simp_all add: trunc_def)

lemma trunc_BLOCK_WIDTH: "trunc BLOCK_WIDTH = 32"
  by (simp add: BLOCK_WIDTH_def)

lemma smod_32_nonneg: "0 \<le> v \<Longrightarrow> v smod 32 = v mod (32::int)"
  by (simp add: signed_modulo_int_def sgn_if)

lemma onGridLine_floor: "onGridLine r \<longleftrightarrow> real_of_int \<lfloor>r\<rfloor> = r"
  unfolding onGridLine_def by (metis Ints_of_int floor_of_int Ints_cases)

lemma trunc_on_line: "real_of_int \<lfloor>r\<rfloor> = r \<Longrightarrow> trunc r = \<lfloor>r\<rfloor>"
  by (metis trunc_of_int)

subsection \<open>Rotation\<close>

lemma rotation_norm_factor:
  fixes x y s k :: real
  shows "(x * k - y * s)\<^sup>2 + (x * s + y * k)\<^sup>2 = (x\<^sup>2 + y\<^sup>2) * (s\<^sup>2 + k\<^sup>2)"
  by (simp add: power2_eq_square algebra_simps)

lemma rotation_dot_factor:
  fixes x y u v s k :: real
  shows "(x * k - y * s) * (u * k - v * s) + (x * s + y * k) * (u * s + v * k)
         = (x * u + y * v) * (s\<^sup>2 + k\<^sup>2)"
  by (simp add: power2_eq_square algebra_simps)

lemma rotate_components:
  "dirX (rotate d c) = dirX c * cos ((if d = LEFT then - 1 else 1) * 0.01)
                        - dirY c * sin ((if d = LEFT then - 1 else 1) * 0.01)"
  "dirY (rotate d c) = dirX c * sin ((if d = LEFT then - 1 else 1) * 0.01)
                        + dirY c * cos ((if d = LEFT then - 1 else 1) * 0.01)"
  "cameraPlaneX (rotate d c) = cameraPlaneX c * cos ((if d = LEFT then - 1 else 1) * 0.01)
                        - cameraPlaneY c * sin ((if d = LEFT then - 1 else 1) * 0.01)"
  "cameraPlaneY (rotate d c) = cameraPlaneX c * sin ((if d = LEFT then - 1 else 1) * 0.01)
                        + cameraPlaneY c * cos ((if d = LEFT then - 1 else 1) * 0.01)"
  by (simp_all add: rotate_def Let_def)

lemma rotate_invariants:
  "(dirX (rotate d c))\<^sup>2 + (dirY (rotate d c))\<^sup>2 = (dirX c)\<^sup>2 + (dirY c)\<^sup>2"
  "(cameraPlaneX (rotate d c))\<^sup>2 + (cameraPlaneY (rotate d c))\<^sup>2
     = (cameraPlaneX c)\<^sup>2 + (cameraPlaneY c)\<^sup>2"
  "dotProduct (rotate d c) = dotProduct c"
  unfolding rotate_components dotProduct_def
  by (simp_all add: rotation_norm_factor rotation_dot_factor)

lemma rotateAll_invariants:
  "(dirX (rotateAll ds c))\<^sup>2 + (dirY (rotateAll ds c))\<^sup>2 = (dirX c)\<^sup>2 + (dirY c)\<^sup>2
   \<and> (cameraPlaneX (rotateAll ds c))\<^sup>2 + (cameraPlaneY (rotateAll ds c))\<^sup>2
       = (cameraPlaneX c)\<^sup>2 + (cameraPlaneY c)\<^sup>2
   \<and> dotProduct (rotateAll ds c) = dotProduct c"
  by (induction ds arbitrary: c) (simp_all add: rotate_invariants)

text \<open>
  Claim C2. Over any sequence of \<open>rotate\<close> calls the magnitude of the facing vector
  \<open>(dirX, dirY)\<close> and the magnitude of the camera-plane vector are unchanged, and the dot
  product of the two vectors is unchanged, so that perpendicular vectors stay perpendicular:
  both are turned by the same angle in each call. (Floating-point numbers are reals here.)
\<close>

theorem rotate_preserves_magnitude_and_angle:
  "facingMagnitude (rotateAll ds c) = facingMagnitude c
   \<and> planeMagnitude (rotateAll ds c) = planeMagnitude c
   \<and> dotProduct (rotateAll ds c) = dotProduct c
   \<and> (dotProduct c = 0 \<longrightarrow> dotProduct (rotateAll ds c) = 0)"
  using rotateAll_invariants [of ds c] by (simp add: facingMagnitude_def planeMagnitude_def)

theorem rotate_preserves_magnitude_and_angle_witness:
  "dotProduct (viewer 48 48) = 0
   \<and> dotProduct (rotateAll [LEFT, RIGHT, RIGHT] (viewer 48 48)) = 0
   \<and> facingMagnitude (rotateAll [LEFT, RIGHT, RIGHT] (viewer 48 48))
       = facingMagnitude (viewer 48 48)"
proof -
  have h: "dotProduct (viewer 48 48) = 0"
    by (simp add: dotProduct_def viewer_def)
  show ?thesis
    using h rotate_preserves_magnitude_and_angle [of "[LEFT, RIGHT, RIGHT]" "viewer 48 48"]
    by simp
qed

subsection \<open>Translation\<close>

text \<open>
  Claim C8. From every state, one step Left followed by one step Right restores the
  position (indeed the whole state); each \<open>updateMovement\<close> call moves \<open>center\<close> and the
  centre of the circle by exactly \<open>MOVEMENT_SPEED\<close> along the requested axis: Left and Up
  decrease X and Y, Right and Down increase them. (Floating-point numbers are reals here.)
\<close>

theorem updateMovement_translation:
  "updateMovement RIGHT (updateMovement LEFT c) = c
   \<and> center (updateMovement RIGHT (updateMovement LEFT c)) = center c
   \<and> center (updateMovement LEFT c) = (fst (center c) - MOVEMENT_SPEED, snd (center c))
   \<and> center (updateMovement RIGHT c) = (fst (center c) + MOVEMENT_SPEED, snd (center c))
   \<and> center (updateMovement UP c) = (fst (center c), snd (center c) - MOVEMENT_SPEED)
   \<and> center (updateMovement DOWN c) = (fst (center c), snd (center c) + MOVEMENT_SPEED)
   \<and> getCharacterCenter (updateMovement LEFT c)
       = (fst (getCharacterCenter c) - MOVEMENT_SPEED, snd (getCharacterCenter c))
   \<and> getCharacterCenter (updateMovement RIGHT c)
       = (fst (getCharacterCenter c) + MOVEMENT_SPEED, snd (getCharacterCenter c))
   \<and> getCharacterCenter (updateMovement UP c)
       = (fst (getCharacterCenter c), snd (getCharacterCenter c) - MOVEMENT_SPEED)
   \<and> getCharacterCenter (updateMovement DOWN c)
       = (fst (getCharacterCenter c), snd (getCharacterCenter c) + MOVEMENT_SPEED)"
  by (simp add: updateMovement_def move_def shift_def getCharacterCenter_def)

subsection \<open>Hit classification\<close>

lemma checkForHit_classifyHit:
  "checkForHit xIndex yIndex hitDetail worldMap = classifyHit xIndex yIndex hitDetail worldMap"
proof -
  consider (corner) "real_of_int \<lfloor>xIndex\<rfloor> = xIndex" "real_of_int \<lfloor>yIndex\<rfloor> = yIndex"
    | (xline) "real_of_int \<lfloor>xIndex\<rfloor> = xIndex" "real_of_int \<lfloor>yIndex\<rfloor> \<noteq> yIndex"
    | (yline) "real_of_int \<lfloor>xIndex\<rfloor> \<noteq> xIndex" "real_of_int \<lfloor>yIndex\<rfloor> = yIndex"
    | (inside) "real_of_int \<lfloor>xIndex\<rfloor> \<noteq> xIndex" "real_of_int \<lfloor>yIndex\<rfloor> \<noteq> yIndex"
    by blast
  then show ?thesis
  proof cases
    case corner
    then show ?thesis
      by (simp add: checkForHit_def classifyHit_def onGridLine_floor trunc_on_line
          cornerCells_def Let_def andThen_def split: sum.splits)
  next
    case xline
    then show ?thesis
      by (simp add: checkForHit_def classifyHit_def onGridLine_floor trunc_on_line
          Let_def andThen_def split: sum.splits)
  next
    case yline
    then show ?thesis
      by (simp add: checkForHit_def classifyHit_def onGridLine_floor trunc_on_line
          Let_def andThen_def split: sum.splits)
  next
    case inside
    then show ?thesis
      by (simp add: checkForHit_def classifyHit_def onGridLine_floor
          Let_def andThen_def)
  qed
qed

lemma checkForHit_corner_alignment:
  "onGridLine xIndex \<Longrightarrow> onGridLine yIndex \<Longrightarrow>
   checkForHit xIndex yIndex hitDetail worldMap = Inr (hit, h) \<Longrightarrow>
   alignment h = alignment hitDetail"
  by (auto simp add: checkForHit_def onGridLine_floor Let_def andThen_def
      split: sum.splits if_splits)

lemma checkForHit_off_grid:
  "\<not> onGridLine xIndex \<Longrightarrow> \<not> onGridLine yIndex \<Longrightarrow>
   checkForHit xIndex yIndex hitDetail worldMap = Inr (False, hitDetail)"
  by (simp add: checkForHit_def onGridLine_floor)

lemma cell_ring3 [simp]:
  "cell ring3 0 0 = Inr 1" "cell ring3 1 0 = Inr 1" "cell ring3 1 1 = Inr 0"
  "cell ring3 2 1 = Inr 1" "cell ring3 1 2 = Inr 1"
  by (simp_all add: cell_def ring3_def)

text \<open>
  Claim C5. \<open>checkForHit\<close> is the classification of the specification: on a corner the
  cells \<open>(y,x)\<close>, \<open>(y-1,x-1)\<close>, \<open>(y,x-1)\<close>, \<open>(y-1,x)\<close> are consulted in this order, the first
  nonzero material is reported and the orientation is left as it is, which is Unknown for
  the fresh \<open>temp\<close> that \<open>calcRays\<close> passes; when only X is on a grid line the cells \<open>(y,x)\<close>,
  \<open>(y,x-1)\<close> are consulted and a nonzero one gives Vertical; when only Y is on a grid line
  the cells \<open>(y,x)\<close>, \<open>(y-1,x)\<close> are consulted and a nonzero one gives Horizontal; otherwise
  there is no hit.
\<close>

theorem checkForHit_classification:
  "checkForHit xIndex yIndex hitDetail worldMap = classifyHit xIndex yIndex hitDetail worldMap
   \<and> (onGridLine xIndex \<and> onGridLine yIndex \<and> alignment hitDetail = unknown
        \<and> checkForHit xIndex yIndex hitDetail worldMap = Inr (True, h)
      \<longrightarrow> alignment h = unknown)"
  using checkForHit_classifyHit [of xIndex yIndex hitDetail worldMap]
    checkForHit_corner_alignment [of xIndex yIndex hitDetail worldMap True h]
  by simp

theorem checkForHit_classification_witness:
  "onGridLine 1 \<and> alignment newHitDetails = unknown
   \<and> checkForHit 1 1 newHitDetails ring3 = Inr (True, newHitDetails\<lparr>color := 1\<rparr>)
   \<and> classifyHit 1 1 newHitDetails ring3 = Inr (True, newHitDetails\<lparr>color := 1\<rparr>)
   \<and> alignment (newHitDetails\<lparr>color := 1\<rparr>) = unknown"
proof -
  have h1: "onGridLine 1" by (simp add: onGridLine_def)
  have h2: "alignment newHitDetails = unknown" by (simp add: newHitDetails_def)
  have h3: "checkForHit 1 1 newHitDetails ring3 = Inr (True, newHitDetails\<lparr>color := 1\<rparr>)"
    by (simp add: checkForHit_def andThen_def Let_def)
  show ?thesis
    using h1 h2 h3
      checkForHit_classification [of 1 1 newHitDetails ring3 "newHitDetails\<lparr>color := 1\<rparr>"]
    by simp
qed

text \<open>
  Claim C10. At a position with neither coordinate on a grid line \<open>checkForHit\<close> reads no
  cell, returns false and leaves \<open>hitDetail\<close> as it was.
\<close>

theorem checkForHit_inside_cell:
  "\<not> onGridLine xIndex \<Longrightarrow> \<not> onGridLine yIndex \<Longrightarrow>
   checkForHit xIndex yIndex hitDetail worldMap = Inr (False, hitDetail)"
  by (rule checkForHit_off_grid)

theorem checkForHit_inside_cell_witness:
  "\<not> onGridLine (3 / 2) \<and> \<not> onGridLine (5 / 4)
   \<and> checkForHit (3 / 2) (5 / 4) newHitDetails ring3 = Inr (False, newHitDetails)"
proof -
  have h1: "\<not> onGridLine (3 / 2)" by (simp add: onGridLine_floor)
  have h2: "\<not> onGridLine (5 / 4)" by (simp add: onGridLine_floor)
  show ?thesis
    using h1 h2 checkForHit_inside_cell [OF h1 h2, of newHitDetails ring3] by simp
qed

subsection \<open>Step distances\<close>

lemma deltaDistX_value:
  "\<exists>d. deltaDistX rayDirX rayDirY = Some d \<and> (d < 0 \<longleftrightarrow> rayDirX < 0) \<and> d \<noteq> 0"
proof (cases "rayDirX = 0")
  case True
  then show ?thesis by (simp add: deltaDistX_def)
next
  case False
  then have "0 < rayDirX * rayDirX + rayDirY * rayDirY"
    by (metis add_pos_nonneg not_real_square_gt_zero zero_le_square)
  then have "0 < sqrt (rayDirX * rayDirX + rayDirY * rayDirY)" by simp
  with False show ?thesis
    by (simp add: deltaDistX_def xMultiplier_def fdiv_def Let_def divide_less_0_iff
        zero_less_mult_iff not_less)
qed

lemma deltaDistY_value:
  "\<exists>d. deltaDistY rayDirX rayDirY = Some d \<and> (d < 0 \<longleftrightarrow> rayDirY < 0) \<and> d \<noteq> 0"
proof (cases "rayDirY = 0")
  case True
  then show ?thesis by (simp add: deltaDistY_def)
next
  case False
  then have "0 < rayDirX * rayDirX + rayDirY * rayDirY"
    by (metis add_nonneg_pos not_real_square_gt_zero zero_le_square)
  then have "0 < sqrt (rayDirX * rayDirX + rayDirY * rayDirY)" by simp
  with False show ?thesis
    by (simp add: deltaDistY_def yMultiplier_def fdiv_def Let_def divide_less_0_iff
        zero_less_mult_iff not_less)
qed

text \<open>
  What the code does once the quotients are computed: a zero component gives the step
  distance \<open>1e30\<close>, every step distance is a finite value that is negative exactly when
  its direction component is negative, and the quotient \<open>32 / |rayDir|\<close> has a zero
  divisor exactly when the component is zero.
\<close>

lemma deltaDist_values:
  "deltaDistX 0 rayDirY = Some (10 ^ 30)
   \<and> deltaDistY rayDirX 0 = Some (10 ^ 30)
   \<and> (\<exists>d. deltaDistX rayDirX rayDirY = Some d \<and> (d < 0 \<longleftrightarrow> rayDirX < 0))
   \<and> (\<exists>d. deltaDistY rayDirX rayDirY = Some d \<and> (d < 0 \<longleftrightarrow> rayDirY < 0))
   \<and> (xMultiplier rayDirX = None \<longleftrightarrow> rayDirX = 0)
   \<and> (yMultiplier rayDirY = None \<longleftrightarrow> rayDirY = 0)"
proof -
  have "deltaDistX 0 rayDirY = Some (10 ^ 30)" "deltaDistY rayDirX 0 = Some (10 ^ 30)"
    by (simp_all add: deltaDistX_def deltaDistY_def)
  moreover have "xMultiplier rayDirX = None \<longleftrightarrow> rayDirX = 0"
    "yMultiplier rayDirY = None \<longleftrightarrow> rayDirY = 0"
    by (simp_all add: xMultiplier_def yMultiplier_def fdiv_def)
  ultimately show ?thesis
    using deltaDistX_value [of rayDirX rayDirY] deltaDistY_value [of rayDirX rayDirY]
    by blast
qed

text \<open>
  Claim C4: a direction component of zero gives the step distance \<open>1e30\<close> and no division
  by zero. The code does not do that. The test of lines 325 and 326 for a zero component
  selects \<open>1e30\<close>, but the quotients \<open>32 / |rayDirX|\<close> and \<open>32 / |rayDirY|\<close> of lines 323
  and 324 are evaluated before it, for every ray. For the character that \<open>main\<close>
  constructs (direction \<open>(-16, 0)\<close>, camera plane \<open>(0, 16)\<close>) and the screen width 640 of
  \<open>main\<close>, column 320 has camera coordinate 0 and the ray \<open>(-16, 0)\<close>: line 324 divides 32
  by \<open>|0|\<close>, and only afterwards does line 326 select \<open>1e30\<close>.
\<close>

theorem deltaDist_divides_by_zero:
  "cameraX 320 640 = Some 0
   \<and> dirX (viewer 16 16) + cameraPlaneX (viewer 16 16) * 0 = - 16
   \<and> dirY (viewer 16 16) + cameraPlaneY (viewer 16 16) * 0 = 0
   \<and> yMultiplier 0 = None
   \<and> deltaDistY (- 16) 0 = Some (10 ^ 30)"
  by (simp add: cameraX_def fdiv_def viewer_def yMultiplier_def deltaDistY_def)

subsection \<open>Distance to the next grid line\<close>

lemma calcNewDistance_steps:
  assumes "0 \<le> vertex"
  shows "\<exists>k::int. 1 \<le> k \<and> k \<le> 32
           \<and> calcNewDistance vertex rayDir deltaDist = (real_of_int k / 32) * deltaDist
           \<and> k = (if rayDir < 0 then (if vertex mod 32 = 0 then 32 else vertex mod 32)
                  else 32 - vertex mod 32)"
proof -
  define m where "m = vertex mod 32"
  have m: "0 \<le> m" "m < 32" by (simp_all add: m_def)
  have cnd: "calcNewDistance vertex rayDir deltaDist =
     ((if rayDir < 0 \<and> m = 0 then 32
       else if rayDir \<ge> 0 then (if 32 - real_of_int m = 0 then 32 else 32 - real_of_int m)
       else real_of_int m) / 32) * deltaDist"
    using assms
    by (simp add: calcNewDistance_def trunc_BLOCK_WIDTH smod_32_nonneg BLOCK_WIDTH_def
        Let_def m_def)
  show ?thesis
  proof (cases "rayDir < 0")
    case True
    show ?thesis
    proof (cases "m = 0")
      case True
      with \<open>rayDir < 0\<close> show ?thesis
        unfolding cnd m_def [symmetric] by (intro exI[of _ 32]) simp
    next
      case False
      with m have "1 \<le> m" "m \<le> 32" by linarith+
      with \<open>rayDir < 0\<close> False show ?thesis
        unfolding cnd m_def [symmetric] by (intro exI[of _ m]) simp
    qed
  next
    case False
    have ne: "real_of_int m \<noteq> 32" using m by linarith
    from m have "1 \<le> 32 - m" "32 - m \<le> 32" by linarith+
    with False ne show ?thesis
      unfolding cnd m_def [symmetric] by (intro exI[of _ "32 - m"]) simp
  qed
qed

subsection \<open>Rounding and the move of one iteration\<close>

lemma cround_of_int [simp]: "cround (real_of_int k) = k"
proof (cases "0 \<le> k")
  case True
  then show ?thesis by (simp add: cround_def)
next
  case False
  then have "\<lfloor>- real_of_int k + 1 / 2\<rfloor> = - k" by linarith
  with False show ?thesis by (simp add: cround_def)
qed

lemma nearInteger_cround: "nearInteger cround"
proof -
  have "\<lfloor>x\<rfloor> \<le> cround x \<and> cround x \<le> \<lceil>x\<rceil>" for x
  proof (cases "x < 0")
    case True
    have "- \<lfloor>- x + 1 / 2\<rfloor> \<le> \<lceil>x\<rceil>" by linarith
    moreover have "\<lfloor>x\<rfloor> \<le> - \<lfloor>- x + 1 / 2\<rfloor>" by linarith
    ultimately show ?thesis using True by (simp add: cround_def)
  next
    case False
    have "\<lfloor>x + 1 / 2\<rfloor> \<le> \<lceil>x\<rceil>" by linarith
    moreover have "\<lfloor>x\<rfloor> \<le> \<lfloor>x + 1 / 2\<rfloor>" by linarith
    ultimately show ?thesis using False by (simp add: cround_def)
  qed
  then show ?thesis by (simp add: nearInteger_def)
qed

lemma roundsNear_exactRound: "roundsNear exactRound"
  by (simp add: roundsNear_def exactRound_def nearInteger_cround)

lemma roundsNear_column: "roundsNear rnd \<Longrightarrow> nearInteger (rnd i k a)"
  by (simp add: roundsNear_def)

lemma nearInteger_of_int: "nearInteger r \<Longrightarrow> r (real_of_int k) = k"
proof -
  assume "nearInteger r"
  then have "\<lfloor>real_of_int k\<rfloor> \<le> r (real_of_int k)" "r (real_of_int k) \<le> \<lceil>real_of_int k\<rceil>"
    unfolding nearInteger_def by blast+
  then show ?thesis by simp
qed

lemma nearInteger_bounds:
  assumes "nearInteger r" "0 \<le> x" "x \<le> real_of_int k"
  shows "0 \<le> r x \<and> r x \<le> k" "- k \<le> r (- x) \<and> r (- x) \<le> 0"
proof -
  have b: "\<lfloor>x\<rfloor> \<le> r x" "r x \<le> \<lceil>x\<rceil>" "\<lfloor>- x\<rfloor> \<le> r (- x)" "r (- x) \<le> \<lceil>- x\<rceil>"
    using assms(1) unfolding nearInteger_def by blast+
  have "0 \<le> \<lfloor>x\<rfloor>" "\<lceil>x\<rceil> \<le> k" "- k \<le> \<lfloor>- x\<rfloor>" "\<lceil>- x\<rceil> \<le> 0"
    using assms(2,3) by linarith+
  with b show "0 \<le> r x \<and> r x \<le> k" "- k \<le> r (- x) \<and> r (- x) \<le> 0" by linarith+
qed

lemma step_arith:
  fixes ddX ddY :: real and a b :: int
  assumes "ddX \<noteq> 0" "ddY \<noteq> 0" "0 \<le> a" "0 \<le> b"
    and sx: "sx = (real_of_int a / 32) * ddX" and sy: "sy = (real_of_int b / 32) * ddY"
    and rx: "nearInteger roundX" and ry: "nearInteger roundY"
  defines "ad \<equiv> (if \<bar>sx\<bar> \<le> \<bar>sy\<bar> then sx else sy)"
  shows "\<exists>n m. 0 \<le> n \<and> n \<le> a \<and> 0 \<le> m \<and> m \<le> b \<and> (n = a \<or> m = b)
          \<and> roundX (\<bar>ad / ddX * 32\<bar> * (if ddX > 0 then 1 else - 1)) = (if ddX > 0 then n else - n)
          \<and> roundY (\<bar>ad / ddY * 32\<bar> * (if ddY > 0 then 1 else - 1)) = (if ddY > 0 then m else - m)"
proof -
  define qx where "qx = \<bar>ad / ddX * 32\<bar>"
  define qy where "qy = \<bar>ad / ddY * 32\<bar>"
  have absx: "\<bar>sx\<bar> = real_of_int a / 32 * \<bar>ddX\<bar>" using assms by (simp add: sx abs_mult)
  have absy: "\<bar>sy\<bar> = real_of_int b / 32 * \<bar>ddY\<bar>" using assms by (simp add: sy abs_mult)
  have qx_eq: "qx = \<bar>ad\<bar> / \<bar>ddX\<bar> * 32" by (simp add: qx_def abs_mult)
  have qy_eq: "qy = \<bar>ad\<bar> / \<bar>ddY\<bar> * 32" by (simp add: qy_def abs_mult)
  have adx: "\<bar>ad\<bar> \<le> \<bar>sx\<bar>" and ady: "\<bar>ad\<bar> \<le> \<bar>sy\<bar>" by (simp_all add: ad_def)
  have "\<bar>ad\<bar> / \<bar>ddX\<bar> * 32 \<le> \<bar>sx\<bar> / \<bar>ddX\<bar> * 32"
    using adx by (simp add: divide_right_mono)
  also have "\<dots> = real_of_int a" using assms(1) by (simp add: absx)
  finally have qx_le: "qx \<le> real_of_int a" by (simp add: qx_eq)
  have "\<bar>ad\<bar> / \<bar>ddY\<bar> * 32 \<le> \<bar>sy\<bar> / \<bar>ddY\<bar> * 32"
    using ady by (simp add: divide_right_mono)
  also have "\<dots> = real_of_int b" using assms(2) by (simp add: absy)
  finally have qy_le: "qy \<le> real_of_int b" by (simp add: qy_eq)
  have q0: "0 \<le> qx" "0 \<le> qy" by (simp_all add: qx_def qy_def)
  have full: "qx = real_of_int a \<or> qy = real_of_int b"
  proof (cases "\<bar>sx\<bar> \<le> \<bar>sy\<bar>")
    case True
    then have "\<bar>ad\<bar> = \<bar>sx\<bar>" by (simp add: ad_def)
    then have "qx = real_of_int a" using assms(1) by (simp add: qx_eq absx)
    then show ?thesis ..
  next
    case False
    then have "\<bar>ad\<bar> = \<bar>sy\<bar>" by (simp add: ad_def)
    then have "qy = real_of_int b" using assms(2) by (simp add: qy_eq absy)
    then show ?thesis ..
  qed
  define n where "n = (if ddX > 0 then roundX qx else - roundX (- qx))"
  define m where "m = (if ddY > 0 then roundY qy else - roundY (- qy))"
  have nb: "0 \<le> n \<and> n \<le> a"
    using nearInteger_bounds [OF rx q0(1) qx_le] by (simp add: n_def)
  have mb: "0 \<le> m \<and> m \<le> b"
    using nearInteger_bounds [OF ry q0(2) qy_le] by (simp add: m_def)
  have fa: "n = a" if "qx = real_of_int a"
    using that nearInteger_of_int [OF rx, of a] nearInteger_of_int [OF rx, of "- a"]
    by (simp add: n_def)
  have fb: "m = b" if "qy = real_of_int b"
    using that nearInteger_of_int [OF ry, of b] nearInteger_of_int [OF ry, of "- b"]
    by (simp add: m_def)
  have full': "n = a \<or> m = b" using full fa fb by blast
  have ex: "roundX (qx * (if ddX > 0 then 1 else - 1)) = (if ddX > 0 then n else - n)"
    "roundY (qy * (if ddY > 0 then 1 else - 1)) = (if ddY > 0 then m else - m)"
    by (simp_all add: n_def m_def)
  show ?thesis
    unfolding qx_def [symmetric] qy_def [symmetric]
    using nb mb full' ex by blast
qed

subsection \<open>One iteration of the traversal loop\<close>

lemma traverseStep_zero_delta:
  "ddX = 0 \<or> ddY = 0 \<Longrightarrow> traverseStep roundX roundY rX rY ddX ddY i hits wm s = Inl NonFinite"
  unfolding traverseStep_def
  by (auto simp add: Let_def fdiv_def finite_value_def andThen_def)

lemma traverseStep_unfold:
  fixes s :: rayState and ddX ddY rX rY :: real and roundX roundY :: "real \<Rightarrow> int"
  assumes "ddX \<noteq> 0" "ddY \<noteq> 0"
  defines "ad \<equiv> (if \<bar>sideDistX s\<bar> \<le> \<bar>sideDistY s\<bar> then sideDistX s else sideDistY s)"
  defines "nx \<equiv> mapX s + roundX (\<bar>ad / ddX * 32\<bar> * (if ddX > 0 then 1 else - 1))"
  defines "ny \<equiv> mapY s + roundY (\<bar>ad / ddY * 32\<bar> * (if ddY > 0 then 1 else - 1))"
  defines "s1 \<equiv> s\<lparr>mapX := nx, mapY := ny,
                  sideDistX := calcNewDistance nx rX ddX,
                  sideDistY := calcNewDistance ny rY ddY\<rparr>"
  shows "traverseStep roundX roundY rX rY ddX ddY i hits wm s =
    andThen (checkForHit (real_of_int nx / 32) (real_of_int ny / 32) (temp s) wm) (\<lambda>(hit, h).
      if i \<noteq> 0 \<and> hit \<and> alignment h = unknown then
        (if 0 \<le> i - 1 \<and> i - 1 < int (length hits)
         then Inr (hit, s1\<lparr>temp := h\<lparr>alignment := alignment (hits ! nat (i - 1))\<rparr>\<rparr>)
         else Inl OutOfRange)
      else Inr (hit, s1\<lparr>temp := h\<rparr>))"
  using assms(1,2)
  unfolding traverseStep_def nx_def ny_def ad_def s1_def
  by (simp add: Let_def fdiv_def finite_value_def andThen_def)

lemma traverseStep_result:
  assumes "traverseStep roundX roundY rX rY ddX ddY i hits wm s = Inr (hit, s1)"
  shows "\<exists>h. checkForHit (real_of_int (mapX s1) / 32) (real_of_int (mapY s1) / 32) (temp s) wm
               = Inr (hit, h)
             \<and> temp s1 = (if i \<noteq> 0 \<and> hit \<and> alignment h = unknown
                          then h\<lparr>alignment := alignment (hits ! nat (i - 1))\<rparr> else h)"
proof -
  have nz: "ddX \<noteq> 0" "ddY \<noteq> 0"
    using assms traverseStep_zero_delta [of ddX ddY roundX roundY rX rY i hits wm s] by auto
  define ad where "ad = (if \<bar>sideDistX s\<bar> \<le> \<bar>sideDistY s\<bar> then sideDistX s else sideDistY s)"
  define nx where "nx = mapX s + roundX (\<bar>ad / ddX * 32\<bar> * (if ddX > 0 then 1 else - 1))"
  define ny where "ny = mapY s + roundY (\<bar>ad / ddY * 32\<bar> * (if ddY > 0 then 1 else - 1))"
  note u = traverseStep_unfold [OF nz, of roundX roundY rX rY i hits wm s, folded ad_def, folded nx_def ny_def]
  show ?thesis
  proof (cases "checkForHit (real_of_int nx / 32) (real_of_int ny / 32) (temp s) wm")
    case (Inl e)
    with assms u show ?thesis by (simp add: andThen_def)
  next
    case (Inr p)
    obtain hit' h where p: "p = (hit', h)" by (cases p)
    from assms u Inr p have
      "(if i \<noteq> 0 \<and> hit' \<and> alignment h = unknown then
        (if 0 \<le> i - 1 \<and> i - 1 < int (length hits)
         then Inr (hit', s\<lparr>mapX := nx, mapY := ny,
                  sideDistX := calcNewDistance nx rX ddX,
                  sideDistY := calcNewDistance ny rY ddY,
                  temp := h\<lparr>alignment := alignment (hits ! nat (i - 1))\<rparr>\<rparr>)
         else Inl OutOfRange)
      else Inr (hit', s\<lparr>mapX := nx, mapY := ny,
                  sideDistX := calcNewDistance nx rX ddX,
                  sideDistY := calcNewDistance ny rY ddY, temp := h\<rparr>)) = (Inr (hit, s1) :: error + bool \<times> rayState)"
      by (simp add: andThen_def)
    then have "hit' = hit \<and> mapX s1 = nx \<and> mapY s1 = ny
      \<and> temp s1 = (if i \<noteq> 0 \<and> hit \<and> alignment h = unknown
                          then h\<lparr>alignment := alignment (hits ! nat (i - 1))\<rparr> else h)"
      by (auto split: if_splits)
    with Inr p show ?thesis by auto
  qed
qed

lemma firstNonzero_Some:
  "firstNonzero wm cells = Inr (Some m) \<Longrightarrow>
     m \<noteq> 0 \<and> (\<exists>rc \<in> set cells. cell wm (fst rc) (snd rc) = Inr m)"
proof (induction cells)
  case Nil
  then show ?case by simp
next
  case (Cons rc cells)
  show ?case
  proof (cases "cell wm (fst rc) (snd rc)")
    case (Inl e)
    with Cons.prems show ?thesis by (simp add: andThen_def)
  next
    case (Inr v)
    show ?thesis
    proof (cases "v = 0")
      case True
      with Inr Cons.prems have "firstNonzero wm cells = Inr (Some m)"
        by (simp add: andThen_def)
      with Cons.IH show ?thesis by auto
    next
      case False
      with Inr Cons.prems show ?thesis by (auto simp add: andThen_def)
    qed
  qed
qed

lemma classifyHit_cases:
  assumes "classifyHit xIndex yIndex hitDetail wm = Inr (hit, h)"
  shows "(\<not> hit \<and> h = hitDetail)
         \<or> (hit \<and> color h \<noteq> 0 \<and> distance h = distance hitDetail
             \<and> (\<exists>rc \<in> set (cornerCells \<lfloor>yIndex\<rfloor> \<lfloor>xIndex\<rfloor>).
                    cell wm (fst rc) (snd rc) = Inr (color h)))"
proof -
  define consulted where "consulted =
     (if onGridLine xIndex \<and> onGridLine yIndex then cornerCells \<lfloor>yIndex\<rfloor> \<lfloor>xIndex\<rfloor>
      else if onGridLine xIndex then [(\<lfloor>yIndex\<rfloor>, \<lfloor>xIndex\<rfloor>), (\<lfloor>yIndex\<rfloor>, \<lfloor>xIndex\<rfloor> - 1)]
      else if onGridLine yIndex then [(\<lfloor>yIndex\<rfloor>, \<lfloor>xIndex\<rfloor>), (\<lfloor>yIndex\<rfloor> - 1, \<lfloor>xIndex\<rfloor>)]
      else [])"
  have sub: "set consulted \<subseteq> set (cornerCells \<lfloor>yIndex\<rfloor> \<lfloor>xIndex\<rfloor>)"
    by (auto simp add: consulted_def cornerCells_def)
  from assms obtain found where f: "firstNonzero wm consulted = Inr found"
    and r: "(case found of None \<Rightarrow> Inr (False, hitDetail)
             | Some material \<Rightarrow> Inr (True, hitDetail\<lparr>alignment :=
                  (if onGridLine xIndex \<and> onGridLine yIndex then alignment hitDetail
                   else if onGridLine xIndex then vertical else horizontal),
                  color := material\<rparr>)) = (Inr (hit, h) :: error + bool \<times> hitDetails)"
    unfolding classifyHit_def Let_def consulted_def [symmetric]
    by (cases "firstNonzero wm consulted") (simp_all add: andThen_def)
  show ?thesis
  proof (cases found)
    case None
    with r show ?thesis by simp
  next
    case (Some m)
    with f have "m \<noteq> 0 \<and> (\<exists>rc \<in> set consulted. cell wm (fst rc) (snd rc) = Inr m)"
      using firstNonzero_Some by blast
    with sub have "m \<noteq> 0 \<and> (\<exists>rc \<in> set (cornerCells \<lfloor>yIndex\<rfloor> \<lfloor>xIndex\<rfloor>).
        cell wm (fst rc) (snd rc) = Inr m)" by blast
    moreover from r Some have "hit \<and> color h = m \<and> distance h = distance hitDetail"
      by auto
    ultimately show ?thesis by simp
  qed
qed

lemma checkForHit_miss_unchanged:
  "checkForHit xIndex yIndex hitDetail worldMap = Inr (False, h) \<Longrightarrow> h = hitDetail"
  using classifyHit_cases [of xIndex yIndex hitDetail worldMap False h]
  by (simp add: checkForHit_classifyHit)

lemma checkForHit_hit_color:
  "checkForHit xIndex yIndex hitDetail worldMap = Inr (True, h) \<Longrightarrow>
    color h \<noteq> 0 \<and> distance h = distance hitDetail
    \<and> (\<exists>rc \<in> set (cornerCells \<lfloor>yIndex\<rfloor> \<lfloor>xIndex\<rfloor>). cell worldMap (fst rc) (snd rc) = Inr (color h))"
  using classifyHit_cases [of xIndex yIndex hitDetail worldMap True h]
  by (simp add: checkForHit_classifyHit)



subsection \<open>Cells inside a solid border\<close>

lemma solidBorder_cell:
  assumes "solidBorder wm" "0 \<le> r" "r < int (length wm)" "0 \<le> k" "k < int (length (hd wm))"
  shows "cell wm r k = Inr (wm ! nat r ! nat k)"
    and "r = 0 \<or> r = int (length wm) - 1 \<or> k = 0 \<or> k = int (length (hd wm)) - 1
         \<Longrightarrow> wm ! nat r ! nat k \<noteq> 0"
proof -
  from assms(1) have sb: "wm \<noteq> [] \<and> (\<forall>row \<in> set wm. row \<noteq> [] \<and> length row = length (hd wm))
      \<and> (\<forall>v \<in> set (hd wm). v \<noteq> 0) \<and> (\<forall>v \<in> set (last wm). v \<noteq> 0)
      \<and> (\<forall>row \<in> set wm. hd row \<noteq> 0 \<and> last row \<noteq> 0)"
    unfolding solidBorder_def list_all_iff .
  then have ne: "wm \<noteq> []"
    and rows: "\<forall>row \<in> set wm. row \<noteq> [] \<and> length row = length (hd wm)"
    and top: "\<forall>v \<in> set (hd wm). v \<noteq> 0"
    and bot: "\<forall>v \<in> set (last wm). v \<noteq> 0"
    and sides: "\<forall>row \<in> set wm. hd row \<noteq> 0 \<and> last row \<noteq> 0"
    by blast+
  define row where "row = wm ! nat r"
  have rin: "nat r < length wm" using assms(2,3) by simp
  then have rowin: "row \<in> set wm" unfolding row_def by (rule nth_mem)
  with rows have len: "length row = length (hd wm)" and rne: "row \<noteq> []" by blast+
  have kin: "nat k < length row" using assms(4,5) len by simp
  then have vin: "row ! nat k \<in> set row" by (rule nth_mem)
  have "k < int (length row)" using assms(5) len by simp
  then show "cell wm r k = Inr (wm ! nat r ! nat k)"
    using assms(2-4) unfolding cell_def row_def by simp
  assume b: "r = 0 \<or> r = int (length wm) - 1 \<or> k = 0 \<or> k = int (length (hd wm)) - 1"
  then consider (t) "r = 0" | (b) "r = int (length wm) - 1" | (l) "k = 0"
    | (r) "k = int (length (hd wm)) - 1" by blast
  then have "row ! nat k \<noteq> 0"
  proof cases
    case t
    then have "row = hd wm" using ne by (simp add: row_def hd_conv_nth)
    with top vin show ?thesis by blast
  next
    case b
    then have "nat r = length wm - 1" by simp
    then have "row = last wm" using ne by (simp add: row_def last_conv_nth)
    with bot vin show ?thesis by blast
  next
    case l
    then have "row ! nat k = hd row" using rne by (simp add: hd_conv_nth)
    with sides rowin show ?thesis by simp
  next
    case r
    then have "nat k = length row - 1" using len by simp
    then have "row ! nat k = last row" using rne by (simp add: last_conv_nth)
    with sides rowin show ?thesis by simp
  qed
  then show "wm ! nat r ! nat k \<noteq> 0" by (simp add: row_def)
qed

lemma on_line_int: "onGridLine (real_of_int x / 32) \<longleftrightarrow> x mod 32 = 0"
proof
  assume "onGridLine (real_of_int x / 32)"
  then obtain k :: int where "real_of_int x / 32 = real_of_int k"
    unfolding onGridLine_def by (auto elim: Ints_cases)
  then have "real_of_int x = real_of_int (32 * k)" by simp
  then have "x = 32 * k" by (simp only: of_int_eq_iff)
  then show "x mod 32 = 0" by simp
next
  assume "x mod 32 = 0"
  then obtain k where "x = 32 * k" by (metis mod_eq_0_iff_dvd dvd_def)
  then show "onGridLine (real_of_int x / 32)" by (simp add: onGridLine_def)
qed

lemma onGridLines_int:
  "onGridLines (real_of_int x, real_of_int y) \<longleftrightarrow> x mod 32 = 0 \<or> y mod 32 = 0"
  by (simp add: onGridLines_def on_line_int)

lemma floor_block: "\<lfloor>real_of_int x / 32\<rfloor> = x div 32"
  by (simp add: floor_divide_of_int_eq [of x 32, simplified])


lemma firstNonzero_two:
  assumes "cell wm r1 k1 = Inr v1" "cell wm r2 k2 = Inr v2"
  shows "\<exists>found. firstNonzero wm [(r1, k1), (r2, k2)] = Inr found
           \<and> (found = None \<longrightarrow> v1 = 0 \<and> v2 = 0)"
  using assms by (simp add: andThen_def)

lemma firstNonzero_four:
  assumes "cell wm r1 k1 = Inr v1" "cell wm r2 k2 = Inr v2"
    "cell wm r3 k3 = Inr v3" "cell wm r4 k4 = Inr v4"
  shows "\<exists>found. firstNonzero wm [(r1, k1), (r2, k2), (r3, k3), (r4, k4)] = Inr found
           \<and> (found = None \<longrightarrow> v1 = 0 \<and> v2 = 0)"
  using assms by (simp add: andThen_def)

lemma corner_in_box:
  assumes sb: "solidBorder wm"
    and "1 \<le> cx" "cx \<le> int (length (hd wm)) - 1" "1 \<le> cy" "cy \<le> int (length wm) - 1"
  shows "\<exists>found. firstNonzero wm (cornerCells cy cx) = Inr found
           \<and> (found = None \<longrightarrow> 1 < cx \<and> cx < int (length (hd wm)) - 1
                                \<and> 1 < cy \<and> cy < int (length wm) - 1)"
proof -
  note c = solidBorder_cell [OF sb]
  have c1: "cell wm cy cx = Inr (wm ! nat cy ! nat cx)" using assms by (intro c(1)) simp_all
  have c2: "cell wm (cy - 1) (cx - 1) = Inr (wm ! nat (cy - 1) ! nat (cx - 1))"
    using assms by (intro c(1)) simp_all
  have c3: "cell wm cy (cx - 1) = Inr (wm ! nat cy ! nat (cx - 1))"
    using assms by (intro c(1)) simp_all
  have c4: "cell wm (cy - 1) cx = Inr (wm ! nat (cy - 1) ! nat cx)"
    using assms by (intro c(1)) simp_all
  have b1: "cx = int (length (hd wm)) - 1 \<or> cy = int (length wm) - 1
            \<Longrightarrow> wm ! nat cy ! nat cx \<noteq> 0"
    using assms by (intro c(2)) auto
  have b2: "cx = 1 \<or> cy = 1 \<Longrightarrow> wm ! nat (cy - 1) ! nat (cx - 1) \<noteq> 0"
    using assms by (intro c(2)) auto
  from firstNonzero_four [OF c1 c2 c3 c4] obtain found where
    f: "firstNonzero wm (cornerCells cy cx) = Inr found"
    and z: "found = None \<longrightarrow> wm ! nat cy ! nat cx = 0 \<and> wm ! nat (cy - 1) ! nat (cx - 1) = 0"
    unfolding cornerCells_def by blast
  have "found = None \<longrightarrow> 1 < cx \<and> cx < int (length (hd wm)) - 1
                                \<and> 1 < cy \<and> cy < int (length wm) - 1"
    using z b1 b2 assms(2-5) by (cases "cx = 1"; cases "cy = 1";
        cases "cx = int (length (hd wm)) - 1"; cases "cy = int (length wm) - 1") auto
  with f show ?thesis by blast
qed

lemma xline_in_box:
  assumes sb: "solidBorder wm"
    and "1 \<le> cx" "cx \<le> int (length (hd wm)) - 1" "1 \<le> cy" "cy < int (length wm) - 1"
  shows "\<exists>found. firstNonzero wm [(cy, cx), (cy, cx - 1)] = Inr found
           \<and> (found = None \<longrightarrow> 1 < cx \<and> cx < int (length (hd wm)) - 1)"
proof -
  note c = solidBorder_cell [OF sb]
  have c1: "cell wm cy cx = Inr (wm ! nat cy ! nat cx)" using assms by (intro c(1)) simp_all
  have c3: "cell wm cy (cx - 1) = Inr (wm ! nat cy ! nat (cx - 1))"
    using assms by (intro c(1)) simp_all
  have b1: "cx = int (length (hd wm)) - 1 \<Longrightarrow> wm ! nat cy ! nat cx \<noteq> 0"
    using assms by (intro c(2)) auto
  have b2: "cx = 1 \<Longrightarrow> wm ! nat cy ! nat (cx - 1) \<noteq> 0"
    using assms by (intro c(2)) auto
  from firstNonzero_two [OF c1 c3] obtain found where
    f: "firstNonzero wm [(cy, cx), (cy, cx - 1)] = Inr found"
    and z: "found = None \<longrightarrow> wm ! nat cy ! nat cx = 0 \<and> wm ! nat cy ! nat (cx - 1) = 0"
    by blast
  have "found = None \<longrightarrow> 1 < cx \<and> cx < int (length (hd wm)) - 1"
    using z b1 b2 assms(2-5) by (cases "cx = 1"; cases "cx = int (length (hd wm)) - 1") auto
  with f show ?thesis by blast
qed

lemma yline_in_box:
  assumes sb: "solidBorder wm"
    and "1 \<le> cx" "cx < int (length (hd wm)) - 1" "1 \<le> cy" "cy \<le> int (length wm) - 1"
  shows "\<exists>found. firstNonzero wm [(cy, cx), (cy - 1, cx)] = Inr found
           \<and> (found = None \<longrightarrow> 1 < cy \<and> cy < int (length wm) - 1)"
proof -
  note c = solidBorder_cell [OF sb]
  have c1: "cell wm cy cx = Inr (wm ! nat cy ! nat cx)" using assms by (intro c(1)) simp_all
  have c4: "cell wm (cy - 1) cx = Inr (wm ! nat (cy - 1) ! nat cx)"
    using assms by (intro c(1)) simp_all
  have b1: "cy = int (length wm) - 1 \<Longrightarrow> wm ! nat cy ! nat cx \<noteq> 0"
    using assms by (intro c(2)) auto
  have b2: "cy = 1 \<Longrightarrow> wm ! nat (cy - 1) ! nat cx \<noteq> 0"
    using assms by (intro c(2)) auto
  from firstNonzero_two [OF c1 c4] obtain found where
    f: "firstNonzero wm [(cy, cx), (cy - 1, cx)] = Inr found"
    and z: "found = None \<longrightarrow> wm ! nat cy ! nat cx = 0 \<and> wm ! nat (cy - 1) ! nat cx = 0"
    by blast
  have "found = None \<longrightarrow> 1 < cy \<and> cy < int (length wm) - 1"
    using z b1 b2 assms(2-5) by (cases "cy = 1"; cases "cy = int (length wm) - 1") auto
  with f show ?thesis by blast
qed

lemma firstNonzero_head:
  assumes "cell wm r k = Inr v" "v \<noteq> 0"
  shows "firstNonzero wm ((r, k) # cells) = Inr (Some v)"
  using assms by (simp add: andThen_def)

lemma corner_in_grid:
  assumes sb: "solidBorder wm"
    and "0 \<le> cx" "cx \<le> int (length (hd wm)) - 1" "0 \<le> cy" "cy \<le> int (length wm) - 1"
  shows "\<exists>found. firstNonzero wm (cornerCells cy cx) = Inr found
           \<and> (found = None \<longrightarrow> 1 < cx \<and> cx < int (length (hd wm)) - 1
                                \<and> 1 < cy \<and> cy < int (length wm) - 1)"
proof (cases "cx = 0 \<or> cy = 0")
  case True
  note c = solidBorder_cell [OF sb]
  have c1: "cell wm cy cx = Inr (wm ! nat cy ! nat cx)" using assms by (intro c(1)) simp_all
  have "wm ! nat cy ! nat cx \<noteq> 0" using assms True by (intro c(2)) auto
  from firstNonzero_head [OF c1 this] show ?thesis unfolding cornerCells_def by simp
next
  case False
  with assms(2,4) have "1 \<le> cx" "1 \<le> cy" by linarith+
  from corner_in_box [OF sb this(1) assms(3) this(2) assms(5)] show ?thesis .
qed

lemma xline_in_grid:
  assumes sb: "solidBorder wm"
    and "0 \<le> cx" "cx \<le> int (length (hd wm)) - 1" "0 \<le> cy" "cy < int (length wm) - 1"
  shows "\<exists>found. firstNonzero wm [(cy, cx), (cy, cx - 1)] = Inr found
           \<and> (found = None \<longrightarrow> 1 < cx \<and> cx < int (length (hd wm)) - 1 \<and> 1 \<le> cy)"
proof (cases "cx = 0 \<or> cy = 0")
  case True
  note c = solidBorder_cell [OF sb]
  have c1: "cell wm cy cx = Inr (wm ! nat cy ! nat cx)" using assms by (intro c(1)) simp_all
  have "wm ! nat cy ! nat cx \<noteq> 0" using assms True by (intro c(2)) auto
  from firstNonzero_head [OF c1 this] show ?thesis by simp
next
  case False
  with assms(2,4) have p: "1 \<le> cx" "1 \<le> cy" by linarith+
  from xline_in_box [OF sb p(1) assms(3) p(2) assms(5)] p(2) show ?thesis by blast
qed

lemma yline_in_grid:
  assumes sb: "solidBorder wm"
    and "0 \<le> cx" "cx < int (length (hd wm)) - 1" "0 \<le> cy" "cy \<le> int (length wm) - 1"
  shows "\<exists>found. firstNonzero wm [(cy, cx), (cy - 1, cx)] = Inr found
           \<and> (found = None \<longrightarrow> 1 < cy \<and> cy < int (length wm) - 1 \<and> 1 \<le> cx)"
proof (cases "cx = 0 \<or> cy = 0")
  case True
  note c = solidBorder_cell [OF sb]
  have c1: "cell wm cy cx = Inr (wm ! nat cy ! nat cx)" using assms by (intro c(1)) simp_all
  have "wm ! nat cy ! nat cx \<noteq> 0" using assms True by (intro c(2)) auto
  from firstNonzero_head [OF c1 this] show ?thesis by simp
next
  case False
  with assms(2,4) have p: "1 \<le> cx" "1 \<le> cy" by linarith+
  from yline_in_box [OF sb p(1) assms(3) p(2) assms(5)] p(1) show ?thesis by blast
qed

lemma classifyHit_of:
  assumes "firstNonzero wm
     (if onGridLine xIndex \<and> onGridLine yIndex then cornerCells \<lfloor>yIndex\<rfloor> \<lfloor>xIndex\<rfloor>
      else if onGridLine xIndex then [(\<lfloor>yIndex\<rfloor>, \<lfloor>xIndex\<rfloor>), (\<lfloor>yIndex\<rfloor>, \<lfloor>xIndex\<rfloor> - 1)]
      else if onGridLine yIndex then [(\<lfloor>yIndex\<rfloor>, \<lfloor>xIndex\<rfloor>), (\<lfloor>yIndex\<rfloor> - 1, \<lfloor>xIndex\<rfloor>)]
      else []) = Inr found"
  shows "\<exists>h. classifyHit xIndex yIndex hitDetail wm = Inr (found \<noteq> None, h)"
  using assms unfolding classifyHit_def Let_def
  by (cases found) (simp_all add: andThen_def)

lemma block_index_range:
  fixes x K :: int
  assumes "0 \<le> x" "x \<le> 32 * K"
  shows "0 \<le> x div 32" "x div 32 \<le> K"
proof -
  show "0 \<le> x div 32" using assms(1) by simp
  have "x div 32 \<le> (32 * K) div 32" using assms(2) by (rule zdiv_mono1) simp
  then show "x div 32 \<le> K" by simp
qed

lemma block_index_strict:
  fixes x K :: int
  assumes "1 < x div 32" "x div 32 < K"
  shows "32 < x \<and> x < 32 * K"
proof -
  have e: "x = 32 * (x div 32) + x mod 32" by simp
  have m: "0 \<le> x mod 32" "x mod 32 < 32" by simp_all
  from e m assms show ?thesis by linarith
qed

lemma off_line_strict:
  fixes x K :: int
  assumes "x mod 32 \<noteq> 0" "0 \<le> x" "x \<le> 32 * K"
  shows "x < 32 * K" "x div 32 < K" "1 \<le> x div 32 \<Longrightarrow> 32 < x"
proof -
  have e: "x = 32 * (x div 32) + x mod 32" by simp
  have m: "0 \<le> x mod 32" "x mod 32 < 32" by simp_all
  have m1: "1 \<le> x mod 32" using m(1) assms(1) by linarith
  have "x \<noteq> 32 * K" using assms(1) by auto
  then show lt: "x < 32 * K" using assms by linarith
  then show "x div 32 < K" using e m by linarith
  show "1 \<le> x div 32 \<Longrightarrow> 32 < x" using e m1 by linarith
qed

lemma checkForHit_in_box:
  fixes x y :: int
  assumes sb: "solidBorder wm"
    and x: "0 \<le> x" "x \<le> 32 * (int (length (hd wm)) - 1)"
    and y: "0 \<le> y" "y \<le> 32 * (int (length wm) - 1)"
    and line: "x mod 32 = 0 \<or> y mod 32 = 0"
  shows "\<exists>hit h. checkForHit (real_of_int x / 32) (real_of_int y / 32) hitDetail wm = Inr (hit, h)
           \<and> (\<not> hit \<longrightarrow> 32 < x \<and> x < 32 * (int (length (hd wm)) - 1)
                         \<and> 32 < y \<and> y < 32 * (int (length wm) - 1))"
proof -
  define cx where "cx = x div 32"
  define cy where "cy = y div 32"
  define KX where "KX = int (length (hd wm)) - 1"
  define KY where "KY = int (length wm) - 1"
  note x' = x [folded KX_def] and y' = y [folded KY_def]
  have cx: "0 \<le> cx" "cx \<le> KX"
    using block_index_range [OF x'] by (simp_all add: cx_def)
  have cy: "0 \<le> cy" "cy \<le> KY"
    using block_index_range [OF y'] by (simp_all add: cy_def)
  have fl: "\<lfloor>real_of_int x / 32\<rfloor> = cx" "\<lfloor>real_of_int y / 32\<rfloor> = cy"
    by (simp_all add: floor_block cx_def cy_def)
  have "\<exists>found. firstNonzero wm
     (if x mod 32 = 0 \<and> y mod 32 = 0 then cornerCells cy cx
      else if x mod 32 = 0 then [(cy, cx), (cy, cx - 1)]
      else if y mod 32 = 0 then [(cy, cx), (cy - 1, cx)]
      else []) = Inr found
     \<and> (found = None \<longrightarrow> (32 < x \<and> x < 32 * KX) \<and> (32 < y \<and> y < 32 * KY))"
  proof -
    from line consider (corner) "x mod 32 = 0" "y mod 32 = 0"
      | (xline) "x mod 32 = 0" "y mod 32 \<noteq> 0"
      | (yline) "x mod 32 \<noteq> 0" "y mod 32 = 0"
      by blast
    then show ?thesis
    proof cases
      case corner
      from corner_in_grid [OF sb cx [unfolded KX_def] cy [unfolded KY_def]] obtain found where
        f: "firstNonzero wm (cornerCells cy cx) = Inr found"
        and z: "found = None \<longrightarrow> 1 < cx \<and> cx < KX \<and> 1 < cy \<and> cy < KY"
        unfolding KX_def KY_def by blast
      have "found = None \<longrightarrow> (32 < x \<and> x < 32 * KX) \<and> (32 < y \<and> y < 32 * KY)"
        using z block_index_strict [of x KX] block_index_strict [of y KY]
        unfolding cx_def cy_def by blast
      with f corner show ?thesis by auto
    next
      case xline
      note oy = off_line_strict [OF xline(2) y']
      from xline_in_grid [OF sb cx [unfolded KX_def] cy(1)] oy(2) obtain found where
        f: "firstNonzero wm [(cy, cx), (cy, cx - 1)] = Inr found"
        and z: "found = None \<longrightarrow> 1 < cx \<and> cx < KX \<and> 1 \<le> cy"
        unfolding KX_def KY_def cy_def by blast
      have "found = None \<longrightarrow> (32 < x \<and> x < 32 * KX) \<and> (32 < y \<and> y < 32 * KY)"
        using z block_index_strict [of x KX] oy(1) oy(3) unfolding cx_def cy_def by blast
      with f xline show ?thesis by auto
    next
      case yline
      note ox = off_line_strict [OF yline(1) x']
      from yline_in_grid [OF sb cx(1) _ cy [unfolded KY_def]] ox(2) obtain found where
        f: "firstNonzero wm [(cy, cx), (cy - 1, cx)] = Inr found"
        and z: "found = None \<longrightarrow> 1 < cy \<and> cy < KY \<and> 1 \<le> cx"
        unfolding KX_def KY_def cx_def by blast
      have "found = None \<longrightarrow> (32 < x \<and> x < 32 * KX) \<and> (32 < y \<and> y < 32 * KY)"
        using z block_index_strict [of y KY] ox(1) ox(3) unfolding cx_def cy_def by blast
      with f yline show ?thesis by auto
    qed
  qed
  then obtain found where f: "firstNonzero wm
     (if x mod 32 = 0 \<and> y mod 32 = 0 then cornerCells cy cx
      else if x mod 32 = 0 then [(cy, cx), (cy, cx - 1)]
      else if y mod 32 = 0 then [(cy, cx), (cy - 1, cx)]
      else []) = Inr found"
    and z: "found = None \<longrightarrow> (32 < x \<and> x < 32 * KX) \<and> (32 < y \<and> y < 32 * KY)" by blast
  from classifyHit_of [of wm "real_of_int x / 32" "real_of_int y / 32" found hitDetail] f
  obtain h where "classifyHit (real_of_int x / 32) (real_of_int y / 32) hitDetail wm
      = Inr (found \<noteq> None, h)"
    unfolding on_line_int fl by blast
  with z show ?thesis unfolding checkForHit_classifyHit KX_def KY_def by blast
qed

lemma forward_in_box:
  fixes x n K :: int
  assumes "0 \<le> n" "n \<le> 32 - x mod 32" "0 \<le> x" "x < 32 * K"
  shows "0 \<le> x + n \<and> x + n \<le> 32 * K" "n = 32 - x mod 32 \<Longrightarrow> (x + n) mod 32 = 0"
proof -
  have e: "x = 32 * (x div 32) + x mod 32" by simp
  have m: "0 \<le> x mod 32" "x mod 32 < 32" by simp_all
  from e m assms(4) have "x div 32 < K" by linarith
  with e m assms show "0 \<le> x + n \<and> x + n \<le> 32 * K" by linarith
  assume n: "n = 32 - x mod 32"
  define d where "d = x div 32"
  define r where "r = x mod 32"
  have "x = 32 * d + r" "n = 32 - r" using n by (simp_all add: d_def r_def)
  then have "x + n = 32 * (d + 1)" by simp
  then show "(x + n) mod 32 = 0" by simp
qed

lemma backward_in_box:
  fixes x n K :: int
  assumes "0 \<le> n" "n \<le> (if x mod 32 = 0 then 32 else x mod 32)" "32 < x" "x < 32 * K"
  shows "0 \<le> x - n \<and> x - n \<le> 32 * K"
    "n = (if x mod 32 = 0 then 32 else x mod 32) \<Longrightarrow> (x - n) mod 32 = 0"
proof -
  have e: "x = 32 * (x div 32) + x mod 32" by simp
  have m: "0 \<le> x mod 32" "x mod 32 < 32" by simp_all
  have "n \<le> 32" using assms(2) m by (simp split: if_splits)
  then show "0 \<le> x - n \<and> x - n \<le> 32 * K" using assms(1,3,4) by linarith
  assume n: "n = (if x mod 32 = 0 then 32 else x mod 32)"
  define d where "d = x div 32"
  define r where "r = x mod 32"
  have xd: "x = 32 * d + r" by (simp add: d_def r_def)
  show "(x - n) mod 32 = 0"
  proof (cases "x mod 32 = 0")
    case True
    with n have "r = 0" "n = 32" by (simp_all add: r_def)
    with xd have "x - n = 32 * (d - 1)" by simp
    then show ?thesis by simp
  next
    case False
    with n have "n = r" by (simp add: r_def)
    with xd have "x - n = 32 * d" by simp
    then show ?thesis by simp
  qed
qed

lemma backward_first_in_box:
  fixes x n K :: int
  assumes "0 \<le> n" "n \<le> x mod 32" "0 \<le> x" "x < 32 * K"
  shows "0 \<le> x - n \<and> x - n \<le> 32 * K" "n = x mod 32 \<Longrightarrow> (x - n) mod 32 = 0"
proof -
  have e: "x = 32 * (x div 32) + x mod 32" by simp
  have m: "0 \<le> x mod 32" "x mod 32 < 32" by simp_all
  from assms(3) have "0 \<le> x div 32" by simp
  with e m assms show "0 \<le> x - n \<and> x - n \<le> 32 * K" by linarith
  assume n: "n = x mod 32"
  define d where "d = x div 32"
  define r where "r = x mod 32"
  have "x = 32 * d + r" "n = r" using n by (simp_all add: d_def r_def)
  then have "x - n = 32 * d" by simp
  then show "(x - n) mod 32 = 0" by simp
qed

subsection \<open>The traversal stays inside the border and ends\<close>

lemma axis_target:
  fixes x a n K :: int and dd rayDir :: real
  assumes dd: "dd \<noteq> 0" "dd < 0 \<longleftrightarrow> rayDir < 0"
    and n: "0 \<le> n" "n \<le> a"
    and x: "0 \<le> x" "x < 32 * K"
    and a: "a = (if rayDir < 0 then (if fresh then x mod 32
                                     else if x mod 32 = 0 then 32 else x mod 32)
                 else 32 - x mod 32)"
    and strict: "\<not> fresh \<Longrightarrow> 32 < x"
  defines "x' \<equiv> x + (if dd > 0 then n else - n)"
  shows "0 \<le> x' \<and> x' \<le> 32 * K"
    and "(if dd > 0 then 32 * K - x' else x') = (if dd > 0 then 32 * K - x else x) - n"
    and "n = a \<Longrightarrow> x' mod 32 = 0"
    and "(rayDir < 0 \<longrightarrow> x' \<le> x) \<and> (\<not> rayDir < 0 \<longrightarrow> x \<le> x')"
proof -
  have both: "(0 \<le> x' \<and> x' \<le> 32 * K) \<and> (n = a \<longrightarrow> x' mod 32 = 0)"
  proof (cases "dd > 0")
    case True
    then have nn: "\<not> rayDir < 0" using dd by auto
    with a n have le: "n \<le> 32 - x mod 32" by simp
    from nn a have "n = a \<longrightarrow> n = 32 - x mod 32" by simp
    moreover have "x' = x + n" using True by (simp add: x'_def)
    ultimately show ?thesis using forward_in_box [OF n(1) le x] by blast
  next
    case False
    then have neg: "rayDir < 0" using dd by auto
    show ?thesis
    proof (cases fresh)
      case True
      with a n neg have le: "n \<le> x mod 32" by simp
      from True neg a have "n = a \<longrightarrow> n = x mod 32" by simp
      moreover have "x' = x - n" using \<open>\<not> dd > 0\<close> by (simp add: x'_def)
      ultimately show ?thesis using backward_first_in_box [OF n(1) le x] by blast
    next
      case False
      with a n neg have le: "n \<le> (if x mod 32 = 0 then 32 else x mod 32)" by simp
      from False neg a have "n = a \<longrightarrow> n = (if x mod 32 = 0 then 32 else x mod 32)" by simp
      moreover have "x' = x - n" using \<open>\<not> dd > 0\<close> by (simp add: x'_def)
      ultimately show ?thesis
        using backward_in_box [OF n(1) le strict [OF False] x(2)] by blast
    qed
  qed
  then show "0 \<le> x' \<and> x' \<le> 32 * K" and "n = a \<Longrightarrow> x' mod 32 = 0" by blast+
  show "(if dd > 0 then 32 * K - x' else x') = (if dd > 0 then 32 * K - x else x) - n"
    by (simp add: x'_def)
  have "dd > 0 \<longleftrightarrow> \<not> rayDir < 0" using dd by auto
  then show "(rayDir < 0 \<longrightarrow> x' \<le> x) \<and> (\<not> rayDir < 0 \<longrightarrow> x \<le> x')"
    using n(1) by (simp add: x'_def)
qed

lemma initialSideDist_steps:
  assumes "0 \<le> trunc cc"
  shows "\<exists>a::int. 0 \<le> a \<and> initialSideDist cc rayDir dd = (real_of_int a / 32) * dd
          \<and> a = (if rayDir < 0 then trunc cc mod 32 else 32 - trunc cc mod 32)"
proof -
  have m: "0 \<le> trunc cc mod 32" "trunc cc mod 32 < 32" by simp_all
  then have "0 \<le> 32 - trunc cc mod 32" by linarith
  with m(1) show ?thesis
    using assms by (simp add: initialSideDist_def smod_32_nonneg)
qed

lemma step_target:
  fixes x y a b :: int and ddX ddY rX rY sdx sdy :: real
    and roundX roundY :: "real \<Rightarrow> int"
  assumes nz: "ddX \<noteq> 0" "ddY \<noteq> 0"
    and sgn: "ddX < 0 \<longleftrightarrow> rX < 0" "ddY < 0 \<longleftrightarrow> rY < 0"
    and rnd: "nearInteger roundX" "nearInteger roundY"
    and x: "0 \<le> x" "x < 32 * (int (length (hd wm)) - 1)"
    and y: "0 \<le> y" "y < 32 * (int (length wm) - 1)"
    and sx: "sdx = (real_of_int a / 32) * ddX"
    and a: "a = (if rX < 0 then (if fresh then x mod 32
                                 else if x mod 32 = 0 then 32 else x mod 32)
                 else 32 - x mod 32)"
    and sy: "sdy = (real_of_int b / 32) * ddY"
    and b: "b = (if rY < 0 then (if fresh then y mod 32
                                 else if y mod 32 = 0 then 32 else y mod 32)
                 else 32 - y mod 32)"
    and strict: "fresh \<or> (32 < x \<and> 32 < y)"
  defines "ad \<equiv> (if \<bar>sdx\<bar> \<le> \<bar>sdy\<bar> then sdx else sdy)"
  defines "nx \<equiv> x + roundX (\<bar>ad / ddX * 32\<bar> * (if ddX > 0 then 1 else - 1))"
  defines "ny \<equiv> y + roundY (\<bar>ad / ddY * 32\<bar> * (if ddY > 0 then 1 else - 1))"
  shows "0 \<le> nx \<and> nx \<le> 32 * (int (length (hd wm)) - 1)
         \<and> 0 \<le> ny \<and> ny \<le> 32 * (int (length wm) - 1)"
    and "travelLeft wm ddX ddY nx ny \<le> travelLeft wm ddX ddY x y"
    and "\<not> fresh \<Longrightarrow> travelLeft wm ddX ddY nx ny < travelLeft wm ddX ddY x y"
    and "\<not> fresh \<Longrightarrow> (nx, ny) \<noteq> (x, y)"
    and "nx mod 32 = 0 \<or> ny mod 32 = 0"
    and "((rX < 0 \<longrightarrow> nx \<le> x) \<and> (\<not> rX < 0 \<longrightarrow> x \<le> nx))
         \<and> ((rY < 0 \<longrightarrow> ny \<le> y) \<and> (\<not> rY < 0 \<longrightarrow> y \<le> ny))"
proof -
  have mx: "0 \<le> x mod 32" "x mod 32 < 32" and my: "0 \<le> y mod 32" "y mod 32 < 32"
    by simp_all
  have mx': "x mod 32 \<le> 32" "x mod 32 \<le> 31" "x mod 32 \<noteq> 0 \<Longrightarrow> 1 \<le> x mod 32"
    using mx by linarith+
  have my': "y mod 32 \<le> 32" "y mod 32 \<le> 31" "y mod 32 \<noteq> 0 \<Longrightarrow> 1 \<le> y mod 32"
    using my by linarith+
  have a0: "0 \<le> a" unfolding a by (simp add: mx')
  have b0: "0 \<le> b" unfolding b by (simp add: my')
  have a1: "\<not> fresh \<Longrightarrow> 1 \<le> a" unfolding a by (simp add: mx')
  have b1: "\<not> fresh \<Longrightarrow> 1 \<le> b" unfolding b by (simp add: my')
  from step_arith [OF nz a0 b0 sx sy rnd, folded ad_def]
  obtain n m where nm: "0 \<le> n" "n \<le> a" "0 \<le> m" "m \<le> b" "n = a \<or> m = b"
    and cx: "roundX (\<bar>ad / ddX * 32\<bar> * (if ddX > 0 then 1 else - 1)) = (if ddX > 0 then n else - n)"
    and cy: "roundY (\<bar>ad / ddY * 32\<bar> * (if ddY > 0 then 1 else - 1)) = (if ddY > 0 then m else - m)"
    by blast
  have nx: "nx = x + (if ddX > 0 then n else - n)" by (simp only: nx_def cx)
  have ny: "ny = y + (if ddY > 0 then m else - m)" by (simp only: ny_def cy)
  have sx': "\<not> fresh \<Longrightarrow> 32 < x" and sy': "\<not> fresh \<Longrightarrow> 32 < y" using strict by auto
  note tx = axis_target [OF nz(1) sgn(1) nm(1,2) x a sx', folded nx]
  note ty = axis_target [OF nz(2) sgn(2) nm(3,4) y b sy', folded ny]
  show "0 \<le> nx \<and> nx \<le> 32 * (int (length (hd wm)) - 1)
         \<and> 0 \<le> ny \<and> ny \<le> 32 * (int (length wm) - 1)"
    using tx(1) ty(1) by blast
  have tl: "travelLeft wm ddX ddY nx ny = travelLeft wm ddX ddY x y - n - m"
    unfolding travelLeft_def using tx(2) ty(2) by linarith
  show "travelLeft wm ddX ddY nx ny \<le> travelLeft wm ddX ddY x y"
    using tl nm by linarith
  have pos: "\<not> fresh \<Longrightarrow> 1 \<le> n + m" using a1 b1 nm by linarith
  show "\<not> fresh \<Longrightarrow> travelLeft wm ddX ddY nx ny < travelLeft wm ddX ddY x y"
    using tl pos by linarith
  show "\<not> fresh \<Longrightarrow> (nx, ny) \<noteq> (x, y)"
  proof
    assume nf: "\<not> fresh" and eq: "(nx, ny) = (x, y)"
    from eq nx ny have "n = 0 \<and> m = 0" by (auto split: if_splits)
    with pos [OF nf] show False by simp
  qed
  show "nx mod 32 = 0 \<or> ny mod 32 = 0" using nm(5) tx(3) ty(3) by blast
  show "((rX < 0 \<longrightarrow> nx \<le> x) \<and> (\<not> rX < 0 \<longrightarrow> x \<le> nx))
         \<and> ((rY < 0 \<longrightarrow> ny \<le> y) \<and> (\<not> rY < 0 \<longrightarrow> y \<le> ny))"
    using tx(4) ty(4) by blast
qed

lemma travelLeft_nonneg:
  assumes "0 \<le> x" "x \<le> 32 * (int (length (hd wm)) - 1)"
    "0 \<le> y" "y \<le> 32 * (int (length wm) - 1)"
  shows "0 \<le> travelLeft wm ddX ddY x y"
    and "travelLeft wm ddX ddY x y \<le> 32 * (int (length wm) + int (length (hd wm)))"
  using assms unfolding travelLeft_def by (auto split: if_splits)

lemma traverseStep_in_border:
  fixes s :: rayState and ddX ddY rX rY :: real and a b :: int
    and roundX roundY :: "real \<Rightarrow> int"
  assumes sb: "solidBorder wm"
    and nz: "ddX \<noteq> 0" "ddY \<noteq> 0"
    and sgn: "ddX < 0 \<longleftrightarrow> rX < 0" "ddY < 0 \<longleftrightarrow> rY < 0"
    and rnd: "nearInteger roundX" "nearInteger roundY"
    and idx: "i = 0 \<or> (1 \<le> i \<and> i \<le> int (length hits))"
    and x: "0 \<le> mapX s" "mapX s < 32 * (int (length (hd wm)) - 1)"
    and y: "0 \<le> mapY s" "mapY s < 32 * (int (length wm) - 1)"
    and sx: "sideDistX s = (real_of_int a / 32) * ddX"
    and a: "a = (if rX < 0 then (if fresh then mapX s mod 32
                                 else if mapX s mod 32 = 0 then 32 else mapX s mod 32)
                 else 32 - mapX s mod 32)"
    and sy: "sideDistY s = (real_of_int b / 32) * ddY"
    and b: "b = (if rY < 0 then (if fresh then mapY s mod 32
                                 else if mapY s mod 32 = 0 then 32 else mapY s mod 32)
                 else 32 - mapY s mod 32)"
    and strict: "fresh \<or> (32 < mapX s \<and> 32 < mapY s)"
  shows "\<exists>hit s1. traverseStep roundX roundY rX rY ddX ddY i hits wm s = Inr (hit, s1)
           \<and> 0 \<le> travelLeft wm ddX ddY (mapX s1) (mapY s1)
           \<and> travelLeft wm ddX ddY (mapX s1) (mapY s1)
                \<le> travelLeft wm ddX ddY (mapX s) (mapY s)
           \<and> (\<not> fresh \<longrightarrow> travelLeft wm ddX ddY (mapX s1) (mapY s1)
                              < travelLeft wm ddX ddY (mapX s) (mapY s))
           \<and> (\<not> hit \<longrightarrow> 32 < mapX s1 \<and> mapX s1 < 32 * (int (length (hd wm)) - 1)
                         \<and> 32 < mapY s1 \<and> mapY s1 < 32 * (int (length wm) - 1)
                         \<and> sideDistX s1 = calcNewDistance (mapX s1) rX ddX
                         \<and> sideDistY s1 = calcNewDistance (mapY s1) rY ddY)
           \<and> (0 \<le> mapX s1 \<and> mapX s1 \<le> 32 * (int (length (hd wm)) - 1)
              \<and> 0 \<le> mapY s1 \<and> mapY s1 \<le> 32 * (int (length wm) - 1))
           \<and> onGridLines (real_of_int (mapX s1), real_of_int (mapY s1))
           \<and> ((rX < 0 \<longrightarrow> mapX s1 \<le> mapX s) \<and> (\<not> rX < 0 \<longrightarrow> mapX s \<le> mapX s1))
           \<and> ((rY < 0 \<longrightarrow> mapY s1 \<le> mapY s) \<and> (\<not> rY < 0 \<longrightarrow> mapY s \<le> mapY s1))"
proof -
  define ad where "ad = (if \<bar>sideDistX s\<bar> \<le> \<bar>sideDistY s\<bar> then sideDistX s else sideDistY s)"
  define nx where "nx = mapX s + roundX (\<bar>ad / ddX * 32\<bar> * (if ddX > 0 then 1 else - 1))"
  define ny where "ny = mapY s + roundY (\<bar>ad / ddY * 32\<bar> * (if ddY > 0 then 1 else - 1))"
  note st = step_target [OF nz sgn rnd x y sx a sy b strict, folded ad_def,
      folded nx_def ny_def]
  from st(1) have box: "0 \<le> nx" "nx \<le> 32 * (int (length (hd wm)) - 1)"
    "0 \<le> ny" "ny \<le> 32 * (int (length wm) - 1)" by simp_all
  from checkForHit_in_box [OF sb box st(5), of "temp s"] obtain hit h where
    chk: "checkForHit (real_of_int nx / 32) (real_of_int ny / 32) (temp s) wm = Inr (hit, h)"
    and miss: "\<not> hit \<longrightarrow> 32 < nx \<and> nx < 32 * (int (length (hd wm)) - 1)
                         \<and> 32 < ny \<and> ny < 32 * (int (length wm) - 1)" by blast
  define s1 where "s1 = s\<lparr>mapX := nx, mapY := ny,
       sideDistX := calcNewDistance nx rX ddX, sideDistY := calcNewDistance ny rY ddY,
       temp := (if i \<noteq> 0 \<and> hit \<and> alignment h = unknown
                then h\<lparr>alignment := alignment (hits ! nat (i - 1))\<rparr> else h)\<rparr>"
  have inrange: "i \<noteq> 0 \<Longrightarrow> 0 \<le> i - 1 \<and> i - 1 < int (length hits)" using idx by linarith
  have "traverseStep roundX roundY rX rY ddX ddY i hits wm s = Inr (hit, s1)"
    unfolding traverseStep_unfold [OF nz, of roundX roundY rX rY i hits wm s, folded ad_def,
        folded nx_def ny_def] chk s1_def
    using inrange by (simp add: andThen_def)
  moreover have f: "mapX s1 = nx" "mapY s1 = ny"
    "sideDistX s1 = calcNewDistance nx rX ddX" "sideDistY s1 = calcNewDistance ny rY ddY"
    by (simp_all add: s1_def)
  moreover note travelLeft_nonneg(1) [OF box, of ddX ddY] st(2) st(3) miss box
    st(5) [folded onGridLines_int]
  moreover from st(6) have
    "(rX < 0 \<longrightarrow> nx \<le> mapX s) \<and> (\<not> rX < 0 \<longrightarrow> mapX s \<le> nx)"
    "(rY < 0 \<longrightarrow> ny \<le> mapY s) \<and> (\<not> rY < 0 \<longrightarrow> mapY s \<le> ny)" by blast+
  ultimately show ?thesis by (intro exI [of _ hit] exI [of _ s1]) simp
qed

lemma traverse_in_border:
  fixes ddX ddY rX rY :: real and rnd :: rounding
  assumes sb: "solidBorder wm"
    and nz: "ddX \<noteq> 0" "ddY \<noteq> 0"
    and sgn: "ddX < 0 \<longleftrightarrow> rX < 0" "ddY < 0 \<longleftrightarrow> rY < 0"
    and rnd: "\<And>k a. nearInteger (rnd k a)"
    and idx: "i = 0 \<or> (1 \<le> i \<and> i \<le> int (length hits))"
  shows "32 < mapX s \<Longrightarrow> mapX s < 32 * (int (length (hd wm)) - 1) \<Longrightarrow>
         32 < mapY s \<Longrightarrow> mapY s < 32 * (int (length wm) - 1) \<Longrightarrow>
         sideDistX s = calcNewDistance (mapX s) rX ddX \<Longrightarrow>
         sideDistY s = calcNewDistance (mapY s) rY ddY \<Longrightarrow>
         travelLeft wm ddX ddY (mapX s) (mapY s) < int fuel \<Longrightarrow>
         \<exists>s'. traverse rnd fuel k rX rY ddX ddY i hits wm s = Inr s'
            \<and> (0 \<le> mapX s' \<and> mapX s' \<le> 32 * (int (length (hd wm)) - 1)
               \<and> 0 \<le> mapY s' \<and> mapY s' \<le> 32 * (int (length wm) - 1))
            \<and> onGridLines (real_of_int (mapX s'), real_of_int (mapY s'))
            \<and> ((rX < 0 \<longrightarrow> mapX s' \<le> mapX s) \<and> (\<not> rX < 0 \<longrightarrow> mapX s \<le> mapX s'))
            \<and> ((rY < 0 \<longrightarrow> mapY s' \<le> mapY s) \<and> (\<not> rY < 0 \<longrightarrow> mapY s \<le> mapY s'))"
proof (induction fuel arbitrary: s k)
  case 0
  from travelLeft_nonneg(1) [of "mapX s" wm "mapY s" ddX ddY] "0.prems"
  show ?case by simp
next
  case (Suc fuel)
  from calcNewDistance_steps [of "mapX s" rX ddX] Suc.prems(1,5) obtain a :: int where
    sx: "sideDistX s = (real_of_int a / 32) * ddX"
    and a: "a = (if rX < 0 then (if False then mapX s mod 32
                                 else if mapX s mod 32 = 0 then 32 else mapX s mod 32)
                 else 32 - mapX s mod 32)" by auto
  from calcNewDistance_steps [of "mapY s" rY ddY] Suc.prems(3,6) obtain b :: int where
    sy: "sideDistY s = (real_of_int b / 32) * ddY"
    and b: "b = (if rY < 0 then (if False then mapY s mod 32
                                 else if mapY s mod 32 = 0 then 32 else mapY s mod 32)
                 else 32 - mapY s mod 32)" by auto
  have x: "0 \<le> mapX s" and y: "0 \<le> mapY s" using Suc.prems(1,3) by simp_all
  have strict: "False \<or> (32 < mapX s \<and> 32 < mapY s)" using Suc.prems(1,3) by simp
  from traverseStep_in_border [where fresh = False and roundX = "rnd k XAxis"
      and roundY = "rnd k YAxis", OF sb nz sgn rnd rnd idx x Suc.prems(2) y Suc.prems(4)
      sx a sy b strict]
  obtain hit s1 where
    step: "traverseStep (rnd k XAxis) (rnd k YAxis) rX rY ddX ddY i hits wm s = Inr (hit, s1)"
    and dec: "travelLeft wm ddX ddY (mapX s1) (mapY s1)
                              < travelLeft wm ddX ddY (mapX s) (mapY s)"
    and miss: "\<not> hit \<longrightarrow> 32 < mapX s1 \<and> mapX s1 < 32 * (int (length (hd wm)) - 1)
                         \<and> 32 < mapY s1 \<and> mapY s1 < 32 * (int (length wm) - 1)
                         \<and> sideDistX s1 = calcNewDistance (mapX s1) rX ddX
                         \<and> sideDistY s1 = calcNewDistance (mapY s1) rY ddY"
    and box: "0 \<le> mapX s1 \<and> mapX s1 \<le> 32 * (int (length (hd wm)) - 1)
              \<and> 0 \<le> mapY s1 \<and> mapY s1 \<le> 32 * (int (length wm) - 1)"
    and line: "onGridLines (real_of_int (mapX s1), real_of_int (mapY s1))"
    and dir: "(rX < 0 \<longrightarrow> mapX s1 \<le> mapX s) \<and> (\<not> rX < 0 \<longrightarrow> mapX s \<le> mapX s1)"
      "(rY < 0 \<longrightarrow> mapY s1 \<le> mapY s) \<and> (\<not> rY < 0 \<longrightarrow> mapY s \<le> mapY s1)"
    by blast
  show ?case
  proof (cases hit)
    case True
    with step have "traverse rnd (Suc fuel) k rX rY ddX ddY i hits wm s = Inr s1"
      by (simp add: andThen_def)
    with box line dir show ?thesis by blast
  next
    case False
    from dec Suc.prems(7) have "travelLeft wm ddX ddY (mapX s1) (mapY s1) < int fuel"
      by linarith
    with Suc.IH [of s1 "Suc k"] miss False obtain s' where
      t: "traverse rnd fuel (Suc k) rX rY ddX ddY i hits wm s1 = Inr s'"
      and r: "0 \<le> mapX s' \<and> mapX s' \<le> 32 * (int (length (hd wm)) - 1)
               \<and> 0 \<le> mapY s' \<and> mapY s' \<le> 32 * (int (length wm) - 1)"
        "onGridLines (real_of_int (mapX s'), real_of_int (mapY s'))"
      and d: "(rX < 0 \<longrightarrow> mapX s' \<le> mapX s1) \<and> (\<not> rX < 0 \<longrightarrow> mapX s1 \<le> mapX s')"
        "(rY < 0 \<longrightarrow> mapY s' \<le> mapY s1) \<and> (\<not> rY < 0 \<longrightarrow> mapY s1 \<le> mapY s')"
      by blast
    from step False t have
      "traverse rnd (Suc fuel) k rX rY ddX ddY i hits wm s = Inr s'"
      by (simp add: andThen_def)
    moreover from d(1) dir(1) have
      "(rX < 0 \<longrightarrow> mapX s' \<le> mapX s) \<and> (\<not> rX < 0 \<longrightarrow> mapX s \<le> mapX s')"
      by linarith
    moreover from d(2) dir(2) have
      "(rY < 0 \<longrightarrow> mapY s' \<le> mapY s) \<and> (\<not> rY < 0 \<longrightarrow> mapY s \<le> mapY s')"
      by linarith
    ultimately show ?thesis using r by blast
  qed
qed

subsection \<open>One ray, one column, all columns\<close>

lemma traverse_result:
  "traverse rnd fuel k rX rY ddX ddY i hits wm s = Inr s' \<Longrightarrow>
   \<exists>h. checkForHit (real_of_int (mapX s') / 32) (real_of_int (mapY s') / 32) (temp s) wm
          = Inr (True, h)
       \<and> temp s' = (if i \<noteq> 0 \<and> alignment h = unknown
                    then h\<lparr>alignment := alignment (hits ! nat (i - 1))\<rparr> else h)"
proof (induction fuel arbitrary: s k)
  case 0
  then show ?case by simp
next
  case (Suc fuel)
  show ?case
  proof (cases "traverseStep (rnd k XAxis) (rnd k YAxis) rX rY ddX ddY i hits wm s")
    case (Inl e)
    with Suc.prems show ?thesis by (simp add: andThen_def)
  next
    case (Inr p)
    obtain hit s1 where p: "p = (hit, s1)" by (cases p)
    from traverseStep_result [OF Inr [unfolded p]] obtain h where
      chk: "checkForHit (real_of_int (mapX s1) / 32) (real_of_int (mapY s1) / 32) (temp s) wm
             = Inr (hit, h)"
      and t: "temp s1 = (if i \<noteq> 0 \<and> hit \<and> alignment h = unknown
                          then h\<lparr>alignment := alignment (hits ! nat (i - 1))\<rparr> else h)"
      by blast
    show ?thesis
    proof (cases hit)
      case True
      with Suc.prems Inr p have "s' = s1" by (simp add: andThen_def)
      with chk t True show ?thesis by auto
    next
      case False
      with Suc.prems Inr p have
        "traverse rnd fuel (Suc k) rX rY ddX ddY i hits wm s1 = Inr s'"
        by (simp add: andThen_def)
      from Suc.IH [OF this] obtain h' where
        r: "checkForHit (real_of_int (mapX s') / 32) (real_of_int (mapY s') / 32) (temp s1) wm
             = Inr (True, h')"
        "temp s' = (if i \<noteq> 0 \<and> alignment h' = unknown
                    then h'\<lparr>alignment := alignment (hits ! nat (i - 1))\<rparr> else h')"
        by blast
      from chk False have "h = temp s" by (auto dest: checkForHit_miss_unchanged)
      with t False have "temp s1 = temp s" by simp
      with r show ?thesis by auto
    qed
  qed
qed

lemma traverse_exits:
  "traverse rnd fuel k rX rY ddX ddY i hits wm s = Inr s' \<longleftrightarrow>
   (\<exists>n<fuel. exitsAfter rnd n k rX rY ddX ddY i hits wm s s')"
proof (induction fuel arbitrary: s k)
  case 0
  show ?case by simp
next
  case (Suc fuel)
  show ?case
  proof (cases "traverseStep (rnd k XAxis) (rnd k YAxis) rX rY ddX ddY i hits wm s")
    case (Inl e)
    have "\<not> exitsAfter rnd n k rX rY ddX ddY i hits wm s s'" for n
      using Inl by (cases n) simp_all
    with Inl show ?thesis by (simp add: andThen_def)
  next
    case (Inr p)
    obtain hit s1 where p: "p = (hit, s1)" by (cases p)
    show ?thesis
    proof (cases hit)
      case True
      have e: "exitsAfter rnd n k rX rY ddX ddY i hits wm s s' \<longleftrightarrow> n = 0 \<and> s1 = s'" for n
        using Inr p True by (cases n) auto
      from Inr p True have
        "traverse rnd (Suc fuel) k rX rY ddX ddY i hits wm s = Inr s' \<longleftrightarrow> s1 = s'"
        by (simp add: andThen_def)
      then show ?thesis unfolding e by auto
    next
      case False
      have e0: "\<not> exitsAfter rnd 0 k rX rY ddX ddY i hits wm s s'"
        using Inr p False by simp
      have eS: "exitsAfter rnd (Suc n) k rX rY ddX ddY i hits wm s s'
                 \<longleftrightarrow> exitsAfter rnd n (Suc k) rX rY ddX ddY i hits wm s1 s'" for n
        using Inr p False by simp
      from Inr p False have
        "traverse rnd (Suc fuel) k rX rY ddX ddY i hits wm s = Inr s'
          \<longleftrightarrow> traverse rnd fuel (Suc k) rX rY ddX ddY i hits wm s1 = Inr s'"
        by (simp add: andThen_def)
      also have "\<dots> \<longleftrightarrow> (\<exists>n<fuel. exitsAfter rnd n (Suc k) rX rY ddX ddY i hits wm s1 s')"
        by (rule Suc.IH)
      also have "\<dots> \<longleftrightarrow> (\<exists>n<Suc fuel. exitsAfter rnd n k rX rY ddX ddY i hits wm s s')"
      proof
        assume "\<exists>n<fuel. exitsAfter rnd n (Suc k) rX rY ddX ddY i hits wm s1 s'"
        then obtain n where "n < fuel"
          "exitsAfter rnd n (Suc k) rX rY ddX ddY i hits wm s1 s'" by blast
        then have "Suc n < Suc fuel" "exitsAfter rnd (Suc n) k rX rY ddX ddY i hits wm s s'"
          using eS by simp_all
        then show "\<exists>n<Suc fuel. exitsAfter rnd n k rX rY ddX ddY i hits wm s s'" by blast
      next
        assume "\<exists>n<Suc fuel. exitsAfter rnd n k rX rY ddX ddY i hits wm s s'"
        then obtain n where n: "n < Suc fuel"
          "exitsAfter rnd n k rX rY ddX ddY i hits wm s s'" by blast
        with e0 obtain m where m: "n = Suc m" by (cases n) auto
        with n eS have "m < fuel" "exitsAfter rnd m (Suc k) rX rY ddX ddY i hits wm s1 s'"
          by simp_all
        then show "\<exists>n<fuel. exitsAfter rnd n (Suc k) rX rY ddX ddY i hits wm s1 s'" by blast
      qed
      finally show ?thesis .
    qed
  qed
qed

lemma startState_fields:
  "mapX (startState c rX rY ddX ddY) = trunc (fst (center c))"
  "mapY (startState c rX rY ddX ddY) = trunc (snd (center c))"
  "sideDistX (startState c rX rY ddX ddY) = initialSideDist (fst (center c)) rX ddX"
  "sideDistY (startState c rX rY ddX ddY) = initialSideDist (snd (center c)) rY ddY"
  "temp (startState c rX rY ddX ddY) = newHitDetails"
  by (simp_all add: startState_def)

lemma castRay_unfold:
  assumes "deltaDistX rX rY = Some ddX" "deltaDistY rX rY = Some ddY"
  shows "castRay rnd fuel c rX rY wm i hits =
     andThen (traverse (rnd i) fuel 0 rX rY ddX ddY i hits wm
        (startState c rX rY ddX ddY)) (\<lambda>s.
       Inr ((temp s)\<lparr>distance :=
               sqrt ((fst (center c) - real_of_int (mapX s))\<^sup>2
                     + (snd (center c) - real_of_int (mapY s))\<^sup>2)\<rparr>,
            (real_of_int (mapX s), real_of_int (mapY s))))"
  using assms
  by (simp add: castRay_def finite_value_def andThen_def Let_def power2_eq_square)

lemma castRay_exits:
  assumes "deltaDistX rX rY = Some ddX" "deltaDistY rX rY = Some ddY"
    and "exitsAfter (rnd i) n 0 rX rY ddX ddY i hits wm (startState c rX rY ddX ddY) s"
    and "n < fuel"
  shows "castRay rnd fuel c rX rY wm i hits =
       Inr ((temp s)\<lparr>distance :=
               sqrt ((fst (center c) - real_of_int (mapX s))\<^sup>2
                     + (snd (center c) - real_of_int (mapY s))\<^sup>2)\<rparr>,
            (real_of_int (mapX s), real_of_int (mapY s)))"
proof -
  from assms(3,4) have
    "traverse (rnd i) fuel 0 rX rY ddX ddY i hits wm (startState c rX rY ddX ddY) = Inr s"
    unfolding traverse_exits by blast
  then show ?thesis unfolding castRay_unfold [OF assms(1,2)] by (simp add: andThen_def)
qed

lemma castRay_result:
  assumes "castRay rnd fuel c rX rY wm i hits = Inr (hr, p)"
  shows "\<exists>h. checkForHit (fst p / 32) (snd p / 32) newHitDetails wm = Inr (True, h)
           \<and> color hr = color h
           \<and> alignment hr = (if i \<noteq> 0 \<and> alignment h = unknown
                              then alignment (hits ! nat (i - 1)) else alignment h)
           \<and> distance hr = sqrt ((fst (center c) - fst p)\<^sup>2 + (snd (center c) - snd p)\<^sup>2)"
proof -
  obtain ddX where dx: "deltaDistX rX rY = Some ddX" using deltaDistX_value by blast
  obtain ddY where dy: "deltaDistY rX rY = Some ddY" using deltaDistY_value by blast
  define s0 where "s0 = startState c rX rY ddX ddY"
  note u = castRay_unfold [OF dx dy, of rnd fuel c wm i hits, folded s0_def]
  show ?thesis
  proof (cases "traverse (rnd i) fuel 0 rX rY ddX ddY i hits wm s0")
    case (Inl e)
    with assms u show ?thesis by (simp add: andThen_def)
  next
    case (Inr s)
    with assms u have hr: "hr = (temp s)\<lparr>distance :=
               sqrt ((fst (center c) - real_of_int (mapX s))\<^sup>2
                     + (snd (center c) - real_of_int (mapY s))\<^sup>2)\<rparr>"
      and p: "p = (real_of_int (mapX s), real_of_int (mapY s))"
      by (simp_all add: andThen_def)
    from traverse_result [OF Inr] obtain h where
      "checkForHit (real_of_int (mapX s) / 32) (real_of_int (mapY s) / 32) newHitDetails wm
          = Inr (True, h)"
      "temp s = (if i \<noteq> 0 \<and> alignment h = unknown
                    then h\<lparr>alignment := alignment (hits ! nat (i - 1))\<rparr> else h)"
      by (auto simp add: s0_def startState_fields)
    with hr p show ?thesis by (intro exI [of _ h]) simp
  qed
qed

lemma castRay_in_border:
  assumes sb: "solidBorder wm" and ins: "insideBorder c wm" and rn: "roundsNear rnd"
    and idx: "i = 0 \<or> (1 \<le> i \<and> i \<le> int (length hits))"
  shows "\<exists>ddX ddY n s. deltaDistX rX rY = Some ddX \<and> deltaDistY rX rY = Some ddY
      \<and> n < enoughFuel wm
      \<and> exitsAfter (rnd i) n 0 rX rY ddX ddY i hits wm (startState c rX rY ddX ddY) s
      \<and> (0 \<le> mapX s \<and> mapX s \<le> 32 * (int (length (hd wm)) - 1)
         \<and> 0 \<le> mapY s \<and> mapY s \<le> 32 * (int (length wm) - 1))
      \<and> onGridLines (real_of_int (mapX s), real_of_int (mapY s))
      \<and> ((rX < 0 \<longrightarrow> mapX s \<le> trunc (fst (center c)))
         \<and> (\<not> rX < 0 \<longrightarrow> trunc (fst (center c)) \<le> mapX s))
      \<and> ((rY < 0 \<longrightarrow> mapY s \<le> trunc (snd (center c)))
         \<and> (\<not> rY < 0 \<longrightarrow> trunc (snd (center c)) \<le> mapY s))"
proof -
  obtain ddX where dx: "deltaDistX rX rY = Some ddX" and sx: "ddX < 0 \<longleftrightarrow> rX < 0"
    and nx: "ddX \<noteq> 0" using deltaDistX_value by blast
  obtain ddY where dy: "deltaDistY rX rY = Some ddY" and sy: "ddY < 0 \<longleftrightarrow> rY < 0"
    and ny: "ddY \<noteq> 0" using deltaDistY_value by blast
  define s0 where "s0 = startState c rX rY ddX ddY"
  note sf = startState_fields [of c rX rY ddX ddY, folded s0_def]
  have rnd: "\<And>k a. nearInteger (rnd i k a)" using rn by (simp add: roundsNear_def)
  from ins have x: "0 \<le> mapX s0" "mapX s0 < 32 * (int (length (hd wm)) - 1)"
    and y: "0 \<le> mapY s0" "mapY s0 < 32 * (int (length wm) - 1)"
    by (simp_all add: insideBorder_def sf)
  have x0: "0 \<le> trunc (fst (center c))" and y0: "0 \<le> trunc (snd (center c))"
    using x(1) y(1) by (simp_all add: sf)
  from initialSideDist_steps [OF x0, of rX ddX] obtain a :: int where
    a: "sideDistX s0 = (real_of_int a / 32) * ddX"
       "a = (if rX < 0 then (if True then mapX s0 mod 32
                                 else if mapX s0 mod 32 = 0 then 32 else mapX s0 mod 32)
                 else 32 - mapX s0 mod 32)"
    by (auto simp add: sf)
  from initialSideDist_steps [OF y0, of rY ddY] obtain b :: int where
    b: "sideDistY s0 = (real_of_int b / 32) * ddY"
       "b = (if rY < 0 then (if True then mapY s0 mod 32
                                 else if mapY s0 mod 32 = 0 then 32 else mapY s0 mod 32)
                 else 32 - mapY s0 mod 32)"
    by (auto simp add: sf)
  have strict: "True \<or> (32 < mapX s0 \<and> 32 < mapY s0)" by simp
  from traverseStep_in_border [where fresh = True and roundX = "rnd i 0 XAxis"
      and roundY = "rnd i 0 YAxis", OF sb nx ny sx sy rnd rnd idx x y a b strict]
  obtain hit s1 where
    step: "traverseStep (rnd i 0 XAxis) (rnd i 0 YAxis) rX rY ddX ddY i hits wm s0
            = Inr (hit, s1)"
    and miss: "\<not> hit \<longrightarrow> 32 < mapX s1 \<and> mapX s1 < 32 * (int (length (hd wm)) - 1)
                         \<and> 32 < mapY s1 \<and> mapY s1 < 32 * (int (length wm) - 1)
                         \<and> sideDistX s1 = calcNewDistance (mapX s1) rX ddX
                         \<and> sideDistY s1 = calcNewDistance (mapY s1) rY ddY"
    and box1: "0 \<le> mapX s1 \<and> mapX s1 \<le> 32 * (int (length (hd wm)) - 1)
              \<and> 0 \<le> mapY s1 \<and> mapY s1 \<le> 32 * (int (length wm) - 1)"
    and line1: "onGridLines (real_of_int (mapX s1), real_of_int (mapY s1))"
    and dir1: "(rX < 0 \<longrightarrow> mapX s1 \<le> mapX s0) \<and> (\<not> rX < 0 \<longrightarrow> mapX s0 \<le> mapX s1)"
      "(rY < 0 \<longrightarrow> mapY s1 \<le> mapY s0) \<and> (\<not> rY < 0 \<longrightarrow> mapY s0 \<le> mapY s1)"
    by blast
  define f where "f = 32 * (length wm + length (hd wm)) + 1"
  have ef: "enoughFuel wm = Suc f" by (simp add: enoughFuel_def f_def)
  have "\<exists>s. traverse (rnd i) (Suc f) 0 rX rY ddX ddY i hits wm s0 = Inr s
      \<and> (0 \<le> mapX s \<and> mapX s \<le> 32 * (int (length (hd wm)) - 1)
         \<and> 0 \<le> mapY s \<and> mapY s \<le> 32 * (int (length wm) - 1))
      \<and> onGridLines (real_of_int (mapX s), real_of_int (mapY s))
      \<and> ((rX < 0 \<longrightarrow> mapX s \<le> mapX s0) \<and> (\<not> rX < 0 \<longrightarrow> mapX s0 \<le> mapX s))
      \<and> ((rY < 0 \<longrightarrow> mapY s \<le> mapY s0) \<and> (\<not> rY < 0 \<longrightarrow> mapY s0 \<le> mapY s))"
  proof (cases hit)
    case True
    with step have "traverse (rnd i) (Suc f) 0 rX rY ddX ddY i hits wm s0 = Inr s1"
      by (simp add: andThen_def)
    with box1 line1 dir1 show ?thesis by blast
  next
    case False
    with miss have g: "32 < mapX s1" "mapX s1 < 32 * (int (length (hd wm)) - 1)"
       "32 < mapY s1" "mapY s1 < 32 * (int (length wm) - 1)"
       "sideDistX s1 = calcNewDistance (mapX s1) rX ddX"
       "sideDistY s1 = calcNewDistance (mapY s1) rY ddY" by simp_all
    have "travelLeft wm ddX ddY (mapX s1) (mapY s1)
            \<le> 32 * (int (length wm) + int (length (hd wm)))"
      using g(1-4) by (intro travelLeft_nonneg(2)) simp_all
    moreover have "int f = 32 * (int (length wm) + int (length (hd wm))) + 1"
      by (simp add: f_def)
    ultimately have "travelLeft wm ddX ddY (mapX s1) (mapY s1) < int f" by linarith
    from traverse_in_border [where k = "Suc 0" and rnd = "rnd i",
        OF sb nx ny sx sy rnd idx g this]
    obtain s' where
      t: "traverse (rnd i) f (Suc 0) rX rY ddX ddY i hits wm s1 = Inr s'"
      and r: "0 \<le> mapX s' \<and> mapX s' \<le> 32 * (int (length (hd wm)) - 1)
               \<and> 0 \<le> mapY s' \<and> mapY s' \<le> 32 * (int (length wm) - 1)"
        "onGridLines (real_of_int (mapX s'), real_of_int (mapY s'))"
      and d: "(rX < 0 \<longrightarrow> mapX s' \<le> mapX s1) \<and> (\<not> rX < 0 \<longrightarrow> mapX s1 \<le> mapX s')"
        "(rY < 0 \<longrightarrow> mapY s' \<le> mapY s1) \<and> (\<not> rY < 0 \<longrightarrow> mapY s1 \<le> mapY s')"
      by blast
    from step False t have "traverse (rnd i) (Suc f) 0 rX rY ddX ddY i hits wm s0 = Inr s'"
      by (simp add: andThen_def)
    moreover from d(1) dir1(1) have
      "(rX < 0 \<longrightarrow> mapX s' \<le> mapX s0) \<and> (\<not> rX < 0 \<longrightarrow> mapX s0 \<le> mapX s')"
      by linarith
    moreover from d(2) dir1(2) have
      "(rY < 0 \<longrightarrow> mapY s' \<le> mapY s0) \<and> (\<not> rY < 0 \<longrightarrow> mapY s0 \<le> mapY s')"
      by linarith
    ultimately show ?thesis using r by blast
  qed
  then obtain s where
    t: "traverse (rnd i) (Suc f) 0 rX rY ddX ddY i hits wm s0 = Inr s"
    and r: "0 \<le> mapX s \<and> mapX s \<le> 32 * (int (length (hd wm)) - 1)
         \<and> 0 \<le> mapY s \<and> mapY s \<le> 32 * (int (length wm) - 1)"
      "onGridLines (real_of_int (mapX s), real_of_int (mapY s))"
      "(rX < 0 \<longrightarrow> mapX s \<le> mapX s0) \<and> (\<not> rX < 0 \<longrightarrow> mapX s0 \<le> mapX s)"
      "(rY < 0 \<longrightarrow> mapY s \<le> mapY s0) \<and> (\<not> rY < 0 \<longrightarrow> mapY s0 \<le> mapY s)"
    by blast
  from t obtain n where n: "n < Suc f"
    "exitsAfter (rnd i) n 0 rX rY ddX ddY i hits wm s0 s"
    unfolding traverse_exits by blast
  from n(1) have "n < enoughFuel wm" by (simp only: ef)
  with dx dy n(2) r [unfolded sf(1,2)] show ?thesis unfolding s0_def by blast
qed

lemma castColumn_unfold:
  assumes "screenWidth \<noteq> 0"
  shows "castColumn rnd fuel c screenWidth wm i hits =
     castRay rnd fuel c
       (dirX c + cameraPlaneX c * (2 * real_of_int i / real_of_int screenWidth - 1))
       (dirY c + cameraPlaneY c * (2 * real_of_int i / real_of_int screenWidth - 1))
       wm i hits"
  using assms
  by (simp add: castColumn_def cameraX_def fdiv_def finite_value_def andThen_def Let_def)

lemma castColumn_zero_width:
  "castColumn rnd fuel c 0 wm i hits = Inl NonFinite"
  by (simp add: castColumn_def cameraX_def fdiv_def finite_value_def andThen_def)

lemma castColumn_result:
  assumes "castColumn rnd fuel c screenWidth wm i hits = Inr (hr, p)"
  shows "\<exists>h. checkForHit (fst p / 32) (snd p / 32) newHitDetails wm = Inr (True, h)
           \<and> color hr = color h
           \<and> alignment hr = (if i \<noteq> 0 \<and> alignment h = unknown
                              then alignment (hits ! nat (i - 1)) else alignment h)
           \<and> distance hr = sqrt ((fst (center c) - fst p)\<^sup>2 + (snd (center c) - snd p)\<^sup>2)"
proof -
  have "screenWidth \<noteq> 0" using assms castColumn_zero_width by auto
  from assms [unfolded castColumn_unfold [OF this]] show ?thesis by (rule castRay_result)
qed

lemma castColumn_in_border:
  assumes sb: "solidBorder wm" and ins: "insideBorder c wm" and rn: "roundsNear rnd"
    and nz: "screenWidth \<noteq> 0"
    and idx: "i = 0 \<or> (1 \<le> i \<and> i \<le> int (length hits))" and fuel: "enoughFuel wm \<le> fuel"
  shows "\<exists>h p. castColumn rnd fuel c screenWidth wm i hits = Inr (h, p) \<and> onGridLines p"
proof -
  define rX where
    "rX = dirX c + cameraPlaneX c * (2 * real_of_int i / real_of_int screenWidth - 1)"
  define rY where
    "rY = dirY c + cameraPlaneY c * (2 * real_of_int i / real_of_int screenWidth - 1)"
  from castRay_in_border [OF sb ins rn idx, of rX rY] obtain ddX ddY n s where
    d: "deltaDistX rX rY = Some ddX" "deltaDistY rX rY = Some ddY"
    and n: "n < enoughFuel wm"
    and e: "exitsAfter (rnd i) n 0 rX rY ddX ddY i hits wm (startState c rX rY ddX ddY) s"
    and l: "onGridLines (real_of_int (mapX s), real_of_int (mapY s))"
    by blast
  from n fuel have "n < fuel" by simp
  from castRay_exits [where rnd = rnd and i = i, OF d e this] l show ?thesis
    unfolding castColumn_unfold [OF nz] rX_def [symmetric] rY_def [symmetric] by blast
qed

lemma calcRaysFrom_result:
  "calcRaysFrom rnd fuel c sw wm i hits rays = Inr (hs, rs) \<Longrightarrow> i \<le> sw + 1 \<Longrightarrow>
   \<exists>hs' rs'. hs = hits @ hs' \<and> rs = rays @ rs'
      \<and> length hs' = nat (sw + 1 - i) \<and> length rs' = nat (sw + 1 - i)
      \<and> (\<forall>k < length hs'. castColumn rnd fuel c sw wm (i + int k) (hits @ take k hs')
                               = Inr (hs' ! k, rs' ! k))"
proof (induction rnd fuel c sw wm i hits rays rule: calcRaysFrom.induct)
  case (1 rnd fuel c sw wm i hits rays)
  show ?case
  proof (cases "i \<le> sw")
    case False
    with "1.prems" have "hs = hits" "rs = rays" "i = sw + 1"
      by (simp_all add: calcRaysFrom.simps)
    then show ?thesis by simp
  next
    case True
    show ?thesis
    proof (cases "castColumn rnd fuel c sw wm i hits")
      case (Inl e)
      with True "1.prems" show ?thesis by (simp add: calcRaysFrom.simps)
    next
      case (Inr r)
      with True "1.prems" have rec:
        "calcRaysFrom rnd fuel c sw wm (i + 1) (hits @ [fst r]) (rays @ [snd r])
          = Inr (hs, rs)"
        by (simp add: calcRaysFrom.simps [of rnd fuel c sw wm i])
      from True have "i + 1 \<le> sw + 1" by simp
      from "1.IH" [OF True Inr rec this] obtain hs2 rs2 where
        e: "hs = (hits @ [fst r]) @ hs2" "rs = (rays @ [snd r]) @ rs2"
        and l: "length hs2 = nat (sw + 1 - (i + 1))" "length rs2 = nat (sw + 1 - (i + 1))"
        and col: "\<forall>k < length hs2. castColumn rnd fuel c sw wm (i + 1 + int k)
                  ((hits @ [fst r]) @ take k hs2) = Inr (hs2 ! k, rs2 ! k)"
        by blast
      have len: "length (fst r # hs2) = nat (sw + 1 - i)" "length (snd r # rs2) = nat (sw + 1 - i)"
        using l True by simp_all
      have "castColumn rnd fuel c sw wm (i + int k) (hits @ take k (fst r # hs2))
              = Inr ((fst r # hs2) ! k, (snd r # rs2) ! k)" if "k < length (fst r # hs2)" for k
      proof (cases k)
        case 0
        with Inr show ?thesis by simp
      next
        case (Suc j)
        with that have "j < length hs2" by simp
        with col have "castColumn rnd fuel c sw wm (i + 1 + int j)
                  ((hits @ [fst r]) @ take j hs2) = Inr (hs2 ! j, rs2 ! j)" by blast
        moreover have "i + 1 + int j = i + int k" using Suc by simp
        ultimately show ?thesis using Suc by simp
      qed
      with e len show ?thesis
        by (intro exI [of _ "fst r # hs2"] exI [of _ "snd r # rs2"]) simp
    qed
  qed
qed

lemma calcRaysFrom_total:
  "(\<forall>j hs. int (length hs) = j \<longrightarrow> j \<le> sw
       \<longrightarrow> (\<exists>r. castColumn rnd fuel c sw wm j hs = Inr r)) \<Longrightarrow>
   int (length hits) = i \<Longrightarrow> \<exists>res. calcRaysFrom rnd fuel c sw wm i hits rays = Inr res"
proof (induction rnd fuel c sw wm i hits rays rule: calcRaysFrom.induct)
  case (1 rnd fuel c sw wm i hits rays)
  show ?case
  proof (cases "i \<le> sw")
    case False
    then show ?thesis by (simp add: calcRaysFrom.simps)
  next
    case True
    from "1.prems" True obtain r where
      r: "castColumn rnd fuel c sw wm i hits = Inr r" by blast
    have "int (length (hits @ [fst r])) = i + 1" using "1.prems"(2) by simp
    from "1.IH" [OF True r "1.prems"(1) this] obtain res where
      "calcRaysFrom rnd fuel c sw wm (i + 1) (hits @ [fst r]) (rays @ [snd r]) = Inr res"
      by blast
    with True r show ?thesis by (simp add: calcRaysFrom.simps [of rnd fuel c sw wm i])
  qed
qed

subsection \<open>Progress of an iteration\<close>





subsection \<open>Evaluation on the concrete grids\<close>

lemma smod_examples [simp]:
  "(48::int) smod 32 = 16" "(40::int) smod 32 = 8" "(32::int) smod 32 = 0"
  "(64::int) smod 32 = 0" "(0::int) smod 32 = 0" "(80::int) smod 32 = 16"
  "(96::int) smod 32 = 0" "(- 16::int) smod 32 = - 16" "(- 32::int) smod 32 = 0"
  by (simp_all add: signed_modulo_int_def)

lemmas cast_eval = castColumn_def castRay_def viewer_def cameraX_def fdiv_def finite_value_def
  andThen_def deltaDistX_def deltaDistY_def xMultiplier_def yMultiplier_def Let_def
  initialSideDist_def traverseStep_def newHitDetails_def cround_def checkForHit_def
  calcNewDistance_def BLOCK_WIDTH_def exactRound_def startState_def

lemma cell_open3 [simp]:
  "cell open3 0 0 = Inr 0" "cell open3 1 0 = Inr 0" "cell open3 0 1 = Inr 0"
  "cell open3 1 1 = Inr 0" "cell open3 (- 1) (- 1) = Inl OutOfRange"
  by (simp_all add: cell_def open3_def)

lemma cell_ring3_outside [simp]:
  "cell ring3 3 1 = Inl OutOfRange" "cell ring3 1 3 = Inl OutOfRange"
  "cell ring3 1 (- 1) = Inl OutOfRange"
  by (simp_all add: cell_def ring3_def)

lemma cell_ring4 [simp]:
  "cell ring4 1 2 = Inr 0" "cell ring4 1 1 = Inr 0" "cell ring4 1 0 = Inr 1"
  by (simp_all add: cell_def ring4_def)

lemma ring3_column0:
  "castColumn exactRound (Suc n) (viewer 48 48) 2 ring3 0 hits
     = Inr (\<lparr>distance = sqrt 512, color = 1, alignment = unknown\<rparr>, (32, 32))"
  by (simp add: cast_eval del: of_int_floor_cancel)

lemma ring3_column1:
  "castColumn exactRound (Suc n) (viewer 48 48) 2 ring3 1 hits
     = Inr (\<lparr>distance = 16, color = 1, alignment = vertical\<rparr>, (32, 48))"
  by (simp add: cast_eval del: of_int_floor_cancel)

lemma ring3_column2:
  "castColumn exactRound (Suc n) (viewer 48 48) 2 ring3 2 [h0, h1]
     = Inr (\<lparr>distance = sqrt 512, color = 1, alignment = alignment h1\<rparr>, (32, 64))"
  by (simp add: cast_eval del: of_int_floor_cancel)

lemma ring3_calcRays:
  "calcRays exactRound (Suc n) (viewer 48 48) 2 ring3
     = Inr ([\<lparr>distance = sqrt 512, color = 1, alignment = unknown\<rparr>,
             \<lparr>distance = 16, color = 1, alignment = vertical\<rparr>,
             \<lparr>distance = sqrt 512, color = 1, alignment = vertical\<rparr>],
            [(32, 32), (32, 48), (32, 64)])"
  unfolding calcRays_def
  apply (subst calcRaysFrom.simps, simp add: ring3_column0)
  apply (subst calcRaysFrom.simps, simp add: ring3_column1)
  apply (subst calcRaysFrom.simps, simp add: ring3_column2)
  apply (subst calcRaysFrom.simps, simp)
  done

lemma ring3_on_line_columns:
  "castColumn exactRound (Suc n) (viewer 32 48) 2 ring3 0 hits
     = Inr (\<lparr>distance = 0, color = 1, alignment = vertical\<rparr>, (32, 48))"
  "castColumn exactRound (Suc n) (viewer 32 48) 2 ring3 1 hits
     = Inr (\<lparr>distance = 0, color = 1, alignment = vertical\<rparr>, (32, 48))"
  "castColumn exactRound (Suc n) (viewer 32 48) 2 ring3 2 hits
     = Inr (\<lparr>distance = 0, color = 1, alignment = vertical\<rparr>, (32, 48))"
  by (simp_all add: cast_eval del: of_int_floor_cancel)

lemma ring3_on_line_calcRays:
  "calcRays exactRound (Suc n) (viewer 32 48) 2 ring3
     = Inr ([\<lparr>distance = 0, color = 1, alignment = vertical\<rparr>,
             \<lparr>distance = 0, color = 1, alignment = vertical\<rparr>,
             \<lparr>distance = 0, color = 1, alignment = vertical\<rparr>],
            [(32, 48), (32, 48), (32, 48)])"
  unfolding calcRays_def
  apply (subst calcRaysFrom.simps, simp add: ring3_on_line_columns)
  apply (subst calcRaysFrom.simps, simp add: ring3_on_line_columns)
  apply (subst calcRaysFrom.simps, simp add: ring3_on_line_columns)
  apply (subst calcRaysFrom.simps, simp)
  done

lemma open3_column0:
  "castColumn exactRound (Suc (Suc n)) (viewer 48 48) 2 open3 0 [] = Inl OutOfRange"
  by (simp add: cast_eval del: of_int_floor_cancel)

lemma open3_calcRays:
  "calcRays exactRound (Suc (Suc n)) (viewer 48 48) 2 open3 = Inl OutOfRange"
  unfolding calcRays_def
  by (subst calcRaysFrom.simps, simp add: open3_column0)

lemma zero_width_calcRays:
  "calcRays rnd fuel c 0 wm = Inl NonFinite"
  unfolding calcRays_def
  by (subst calcRaysFrom.simps) (simp add: castColumn_zero_width)

lemma ring3_last_row_columns:
  "castColumn exactRound (Suc n) (viewer 48 80) 2 ring3 0 hits
     = Inr (\<lparr>distance = sqrt 512, color = 1, alignment = unknown\<rparr>, (32, 64))"
  "castColumn exactRound (Suc n) (viewer 48 80) 2 ring3 1 hits
     = Inr (\<lparr>distance = 16, color = 1, alignment = vertical\<rparr>, (32, 80))"
  "castColumn exactRound (Suc n) (viewer 48 80) 2 ring3 2 hits = Inl OutOfRange"
  by (simp_all add: cast_eval del: of_int_floor_cancel)

lemma ring3_last_row_calcRays:
  "calcRays exactRound (Suc n) (viewer 48 80) 2 ring3 = Inl OutOfRange"
  unfolding calcRays_def
  apply (subst calcRaysFrom.simps, simp add: ring3_last_row_columns)
  apply (subst calcRaysFrom.simps, simp add: ring3_last_row_columns)
  apply (subst calcRaysFrom.simps, simp add: ring3_last_row_columns)
  done

lemma ring3_last_column_column0:
  "castColumn exactRound (Suc n) (viewerFacingRight 80 48) 2 ring3 0 hits = Inl OutOfRange"
  by (simp add: cast_eval viewerFacingRight_def del: of_int_floor_cancel)

lemma ring3_last_column_calcRays:
  "calcRays exactRound (Suc n) (viewerFacingRight 80 48) 2 ring3 = Inl OutOfRange"
  unfolding calcRays_def
  by (subst calcRaysFrom.simps, simp add: ring3_last_column_column0)

lemma trunc_neg_numeral [simp]: "trunc (- numeral n) = - numeral n" "trunc (- 1) = - 1"
  using trunc_of_int [of "- numeral n"] trunc_of_int [of "- 1"] by simp_all

lemma ring3_outside_column0:
  "castColumn exactRound (Suc n) (viewer (- 16) 48) 2 ring3 0 hits = Inl OutOfRange"
  by (simp add: cast_eval del: of_int_floor_cancel)

lemma ring3_outside_calcRays:
  "calcRays exactRound (Suc n) (viewer (- 16) 48) 2 ring3 = Inl OutOfRange"
  unfolding calcRays_def
  by (subst calcRaysFrom.simps, simp add: ring3_outside_column0)


lemma solidBorder_ring3: "solidBorder ring3"
  by (simp add: solidBorder_def ring3_def)

lemma insideBorder_ring3: "insideBorder (viewer 48 48) ring3" "insideBorder (viewer 32 48) ring3"
  by (simp_all add: insideBorder_def ring3_def viewer_def)

lemma enoughFuel_ring3: "enoughFuel ring3 = Suc 193"
  by (simp add: enoughFuel_def ring3_def)

lemma off_line_48: "\<not> onGridLines (center (viewer 48 48))"
proof -
  have "\<lfloor>3 / 2 :: real\<rfloor> = 1" by linarith
  then have "\<not> onGridLine (3 / 2)" by (simp add: onGridLine_floor)
  then show ?thesis by (simp add: onGridLines_def viewer_def)
qed





subsection \<open>The results of calcRays\<close>

lemma calcRays_columns:
  assumes "calcRays rnd fuel c sw wm = Inr (hits, rays)" "k < length hits"
  shows "castColumn rnd fuel c sw wm (int k) (take k hits) = Inr (hits ! k, rays ! k)"
    and "length rays = length hits" and "length hits = nat (sw + 1)"
proof -
  have sw: "0 \<le> sw + 1"
  proof (rule ccontr)
    assume "\<not> 0 \<le> sw + 1"
    then have "calcRays rnd fuel c sw wm = Inr ([], [])"
      by (simp add: calcRays_def calcRaysFrom.simps)
    with assms show False by simp
  qed
  from calcRaysFrom_result [OF assms(1) [unfolded calcRays_def] sw]
  obtain hs rs where e: "hits = hs" "rays = rs"
    and l: "length hs = nat (sw + 1)" "length rs = nat (sw + 1)"
    and col: "\<forall>k < length hs. castColumn rnd fuel c sw wm (0 + int k) ([] @ take k hs)
                               = Inr (hs ! k, rs ! k)"
    by auto
  from col assms(2) e
  show "castColumn rnd fuel c sw wm (int k) (take k hits) = Inr (hits ! k, rays ! k)"
    by simp
  from e l show "length rays = length hits" "length hits = nat (sw + 1)" by simp_all
qed

lemma column_facts:
  assumes "castColumn rnd fuel c sw wm (int k) (take k hits) = Inr (hits ! k, rays ! k)"
    "k < length hits"
  shows "\<exists>h. checkForHit (fst (rays ! k) / 32) (snd (rays ! k) / 32) newHitDetails wm
               = Inr (True, h)
           \<and> color (hits ! k) = color h
           \<and> alignment (hits ! k) = (if k \<noteq> 0 \<and> alignment h = unknown
                                      then alignment (hits ! (k - 1)) else alignment h)
           \<and> distance (hits ! k) = sqrt ((fst (center c) - fst (rays ! k))\<^sup>2
                                         + (snd (center c) - snd (rays ! k))\<^sup>2)"
proof -
  from castColumn_result [OF assms(1)] obtain h where
    h: "checkForHit (fst (rays ! k) / 32) (snd (rays ! k) / 32) newHitDetails wm = Inr (True, h)"
    "color (hits ! k) = color h"
    "alignment (hits ! k) = (if int k \<noteq> 0 \<and> alignment h = unknown
                              then alignment (take k hits ! nat (int k - 1)) else alignment h)"
    "distance (hits ! k) = sqrt ((fst (center c) - fst (rays ! k))\<^sup>2
                                         + (snd (center c) - snd (rays ! k))\<^sup>2)"
    by blast
  have "k \<noteq> 0 \<Longrightarrow> take k hits ! nat (int k - 1) = hits ! (k - 1)"
    by (simp add: nat_diff_distrib')
  with h show ?thesis by (intro exI [of _ h]) auto
qed

text \<open>
  Claim C6. Whenever \<open>calcRays\<close> returns, the distance recorded for column \<open>k\<close> is the
  Euclidean distance \<open>sqrt((startX-endX)^2 + (startY-endY)^2)\<close> from \<open>center\<close> to the point
  pushed to \<open>rayCasts\<close> for that column, which is the position where the last
  \<open>checkForHit\<close> of the column reported the hit; this holds whatever the rounding of the
  run. (The witness shows a column whose distance, \<open>sqrt 512\<close>, differs from its distance
  along the facing direction, 16.)
\<close>

theorem distance_is_euclidean:
  assumes "calcRays rnd fuel c screenWidth worldMap = Inr (hits, rayCasts)" "k < length hits"
  shows "distance (hits ! k)
           = sqrt ((fst (center c) - fst (rayCasts ! k))\<^sup>2
                   + (snd (center c) - snd (rayCasts ! k))\<^sup>2)
         \<and> (\<exists>h. checkForHit (fst (rayCasts ! k) / 32) (snd (rayCasts ! k) / 32)
                   newHitDetails worldMap = Inr (True, h))"
  using column_facts [OF calcRays_columns(1) [OF assms] assms(2)] by blast

theorem distance_is_euclidean_witness:
  "calcRays exactRound (Suc 0) (viewer 48 48) 2 ring3 = Inr (ring3_hits, ring3_rayCasts)
   \<and> 0 < length ring3_hits
   \<and> distance (ring3_hits ! 0) = sqrt ((48 - 32)\<^sup>2 + (48 - 32)\<^sup>2)
   \<and> distance (ring3_hits ! 0) \<noteq> 16"
proof -
  have e: "calcRays exactRound (Suc 0) (viewer 48 48) 2 ring3
             = Inr (ring3_hits, ring3_rayCasts)"
    by (simp add: ring3_calcRays ring3_hits_def ring3_rayCasts_def)
  have l: "0 < length ring3_hits" by (simp add: ring3_hits_def)
  have "sqrt 512 \<noteq> 16"
  proof
    assume "sqrt 512 = 16"
    then have "(sqrt 512)\<^sup>2 = 16\<^sup>2" by simp
    then show False by simp
  qed
  then have n: "distance (ring3_hits ! 0) \<noteq> 16"
    by (simp add: ring3_hits_def)
  from distance_is_euclidean [OF e l] have
    "distance (ring3_hits ! 0) = sqrt ((48 - 32)\<^sup>2 + (48 - 32)\<^sup>2)"
    by (simp add: viewer_def ring3_rayCasts_def)
  with e l n show ?thesis by blast
qed

text \<open>
  Claim C7. Whenever \<open>calcRays\<close> returns, the orientation recorded for column \<open>k\<close> is the
  one that \<open>checkForHit\<close> gives at the struck position, except that for \<open>k > 0\<close> an Unknown
  orientation is replaced by the orientation recorded for column \<open>k - 1\<close>; for column 0
  an Unknown orientation stays Unknown. This holds whatever the rounding of the run.
\<close>

theorem unknown_orientation_inherited:
  assumes "calcRays rnd fuel c screenWidth worldMap = Inr (hits, rayCasts)" "k < length hits"
  shows "\<exists>h. checkForHit (fst (rayCasts ! k) / 32) (snd (rayCasts ! k) / 32)
                newHitDetails worldMap = Inr (True, h)
           \<and> alignment (hits ! k) = (if k \<noteq> 0 \<and> alignment h = unknown
                                      then alignment (hits ! (k - 1)) else alignment h)"
  using column_facts [OF calcRays_columns(1) [OF assms] assms(2)] by blast

theorem unknown_orientation_inherited_witness:
  "calcRays exactRound (Suc 0) (viewer 48 48) 2 ring3 = Inr (ring3_hits, ring3_rayCasts)
   \<and> 2 < length ring3_hits
   \<and> checkForHit (fst (ring3_rayCasts ! 2) / 32) (snd (ring3_rayCasts ! 2) / 32)
        newHitDetails ring3 = Inr (True, newHitDetails\<lparr>color := 1\<rparr>)
   \<and> alignment (newHitDetails\<lparr>color := 1\<rparr>) = unknown
   \<and> alignment (ring3_hits ! 2) = alignment (ring3_hits ! (2 - 1))
   \<and> alignment (ring3_hits ! 1) = vertical
   \<and> alignment (ring3_hits ! 0) = unknown"
proof -
  have e: "calcRays exactRound (Suc 0) (viewer 48 48) 2 ring3
             = Inr (ring3_hits, ring3_rayCasts)"
    by (simp add: ring3_calcRays ring3_hits_def ring3_rayCasts_def)
  have l: "2 < length ring3_hits" by (simp add: ring3_hits_def)
  have c: "checkForHit (fst (ring3_rayCasts ! 2) / 32) (snd (ring3_rayCasts ! 2) / 32)
        newHitDetails ring3 = Inr (True, newHitDetails\<lparr>color := 1\<rparr>)"
    by (simp add: ring3_rayCasts_def checkForHit_def andThen_def Let_def)
  have u: "alignment (newHitDetails\<lparr>color := 1\<rparr>) = unknown" by (simp add: newHitDetails_def)
  from unknown_orientation_inherited [OF e l] c u
  have "alignment (ring3_hits ! 2) = alignment (ring3_hits ! (2 - 1))" by auto
  moreover have "alignment (ring3_hits ! 1) = vertical" "alignment (ring3_hits ! 0) = unknown"
    by (simp_all add: ring3_hits_def)
  ultimately show ?thesis using e l c u by blast
qed




text \<open>
  Claim C1, as amended. For a grid with a solid border, a viewpoint inside it, a screen
  width of at least 1 and any rounding between floor and ceiling, \<open>calcRays\<close> returns
  exactly \<open>screenWidth + 1\<close> results and as many points, entry \<open>k\<close> being the result of
  column \<open>k\<close>; each result has a nonzero material that is the value of one of the four
  cells around the struck position, and a distance greater than 0, except that for a
  viewpoint whose position lies on a grid line the distance is at least 0.
\<close>

theorem calcRays_inside_border:
  assumes "solidBorder worldMap" "insideBorder c worldMap" "roundsNear rnd"
    "1 \<le> screenWidth" "enoughFuel worldMap \<le> fuel"
  shows "\<exists>hits rayCasts. calcRays rnd fuel c screenWidth worldMap = Inr (hits, rayCasts)
     \<and> length hits = nat screenWidth + 1 \<and> length rayCasts = nat screenWidth + 1
     \<and> (\<forall>k \<le> nat screenWidth.
          castColumn rnd fuel c screenWidth worldMap (int k) (take k hits)
            = Inr (hits ! k, rayCasts ! k)
          \<and> 0 \<le> distance (hits ! k)
          \<and> (\<not> onGridLines (center c) \<longrightarrow> 0 < distance (hits ! k))
          \<and> color (hits ! k) \<noteq> 0
          \<and> (\<exists>rc \<in> set (cornerCells \<lfloor>snd (rayCasts ! k) / 32\<rfloor> \<lfloor>fst (rayCasts ! k) / 32\<rfloor>).
                cell worldMap (fst rc) (snd rc) = Inr (color (hits ! k))))"
proof -
  have nz: "screenWidth \<noteq> 0" using assms(4) by simp
  have cols: "\<forall>j hs. int (length hs) = j \<longrightarrow> j \<le> screenWidth
       \<longrightarrow> (\<exists>r. castColumn rnd fuel c screenWidth worldMap j hs = Inr r)"
  proof (intro allI impI)
    fix j :: int and hs :: "hitDetails list"
    assume "int (length hs) = j" "j \<le> screenWidth"
    then have "j = 0 \<or> (1 \<le> j \<and> j \<le> int (length hs))" by linarith
    from castColumn_in_border [OF assms(1,2,3) nz this assms(5)]
    show "\<exists>r. castColumn rnd fuel c screenWidth worldMap j hs = Inr r" by blast
  qed
  have "int (length ([] :: hitDetails list)) = 0" by simp
  from calcRaysFrom_total [OF cols this, of "[]"] obtain hits rayCasts where
    res: "calcRays rnd fuel c screenWidth worldMap = Inr (hits, rayCasts)"
    unfolding calcRays_def by force
  have lh: "length hits = nat screenWidth + 1"
  proof -
    have "calcRaysFrom rnd fuel c screenWidth worldMap 0 [] [] = Inr (hits, rayCasts)"
      using res by (simp add: calcRays_def)
    from calcRaysFrom_result [OF this] assms(4) have "length hits = nat (screenWidth + 1 - 0)"
      by auto
    with assms(4) show ?thesis by (simp add: nat_add_distrib)
  qed
  have per: "castColumn rnd fuel c screenWidth worldMap (int k) (take k hits)
            = Inr (hits ! k, rayCasts ! k)
          \<and> 0 \<le> distance (hits ! k)
          \<and> (\<not> onGridLines (center c) \<longrightarrow> 0 < distance (hits ! k))
          \<and> color (hits ! k) \<noteq> 0
          \<and> (\<exists>rc \<in> set (cornerCells \<lfloor>snd (rayCasts ! k) / 32\<rfloor> \<lfloor>fst (rayCasts ! k) / 32\<rfloor>).
                cell worldMap (fst rc) (snd rc) = Inr (color (hits ! k)))"
    if "k \<le> nat screenWidth" for k
  proof -
    have kl: "k < length hits" using that lh by simp
    note col = calcRays_columns(1) [OF res kl]
    from column_facts [OF col kl] obtain h where
      h: "checkForHit (fst (rayCasts ! k) / 32) (snd (rayCasts ! k) / 32) newHitDetails worldMap
               = Inr (True, h)"
      "color (hits ! k) = color h"
      and d: "distance (hits ! k) = sqrt ((fst (center c) - fst (rayCasts ! k))\<^sup>2
                                         + (snd (center c) - snd (rayCasts ! k))\<^sup>2)"
      by blast
    from checkForHit_hit_color [OF h(1)] h(2) have
      c: "color (hits ! k) \<noteq> 0"
      "\<exists>rc \<in> set (cornerCells \<lfloor>snd (rayCasts ! k) / 32\<rfloor> \<lfloor>fst (rayCasts ! k) / 32\<rfloor>).
                cell worldMap (fst rc) (snd rc) = Inr (color (hits ! k))" by simp_all
    have d0: "0 \<le> distance (hits ! k)" unfolding d by simp
    have dz: "distance (hits ! k) = 0 \<longleftrightarrow> rayCasts ! k = center c"
      unfolding d by (auto simp add: prod_eq_iff)
    have "length (take k hits) = k" using kl by simp
    then have "int k = 0 \<or> (1 \<le> int k \<and> int k \<le> int (length (take k hits)))" by linarith
    from castColumn_in_border [OF assms(1,2,3) nz this assms(5)] col
    have "onGridLines (rayCasts ! k)" by auto
    with dz d0 have dp: "\<not> onGridLines (center c) \<longrightarrow> 0 < distance (hits ! k)"
      by (cases "distance (hits ! k) = 0") auto
    from col d0 dp c show ?thesis by blast
  qed
  have "0 < length hits" using lh by simp
  from calcRays_columns(2) [OF res this] lh have lr: "length rayCasts = nat screenWidth + 1"
    by simp
  from res lh lr per show ?thesis by blast
qed

theorem calcRays_inside_border_witness:
  "solidBorder ring3 \<and> insideBorder (viewer 48 48) ring3 \<and> roundsNear exactRound
   \<and> (1 :: int) \<le> 2 \<and> enoughFuel ring3 \<le> enoughFuel ring3
   \<and> calcRays exactRound (enoughFuel ring3) (viewer 48 48) 2 ring3
       = Inr (ring3_hits, ring3_rayCasts)
   \<and> length ring3_hits = nat 2 + 1 \<and> length ring3_rayCasts = nat 2 + 1
   \<and> 0 < distance (ring3_hits ! 2) \<and> color (ring3_hits ! 2) \<noteq> 0
   \<and> cell ring3 2 1 = Inr (color (ring3_hits ! 2))"
proof -
  have w: "(1 :: int) \<le> 2" by simp
  have f: "enoughFuel ring3 \<le> enoughFuel ring3" by simp
  have e: "calcRays exactRound (enoughFuel ring3) (viewer 48 48) 2 ring3
             = Inr (ring3_hits, ring3_rayCasts)"
    unfolding enoughFuel_ring3 ring3_hits_def ring3_rayCasts_def by (rule ring3_calcRays)
  from calcRays_inside_border
      [OF solidBorder_ring3 insideBorder_ring3(1) roundsNear_exactRound w f]
  obtain hits rayCasts where
    r: "calcRays exactRound (enoughFuel ring3) (viewer 48 48) 2 ring3 = Inr (hits, rayCasts)"
    and l: "length hits = nat 2 + 1" "length rayCasts = nat 2 + 1"
    and p: "\<forall>k \<le> nat 2. (\<not> onGridLines (center (viewer 48 48)) \<longrightarrow> 0 < distance (hits ! k))
                \<and> color (hits ! k) \<noteq> 0"
    by blast
  from r e have eq: "hits = ring3_hits" "rayCasts = ring3_rayCasts" by simp_all
  have "(2::nat) \<le> nat 2" by simp
  with p off_line_48 have "0 < distance (hits ! 2) \<and> color (hits ! 2) \<noteq> 0" by blast
  moreover have "cell ring3 2 1 = Inr (color (ring3_hits ! 2))" by (simp add: ring3_hits_def)
  ultimately show ?thesis
    using solidBorder_ring3 insideBorder_ring3(1) roundsNear_exactRound w f e l
    unfolding eq by blast
qed

text \<open>
  Claim C1 as stated fails, where the amended claim makes an exception or an assumption.
  With the viewpoint on the grid line \<open>x = 32\<close> next to the wall, inside the border of
  \<open>ring3\<close>, every column has distance 0. In a grid without walls the first ray leaves the
  grid and reads \<open>worldMap[-1][-1]\<close>. From a block of the last row the ray of column 2
  reaches the line \<open>y = 96\<close> and reads \<open>worldMap[3][1]\<close>, from a block of the last
  column a character facing right reads \<open>worldMap[1][3]\<close>, and from a position left of
  the grid the first ray reads \<open>worldMap[1][-1]\<close>. With a screen width of 0 the only
  column has the camera offset \<open>0 / 0\<close>.
\<close>

theorem calcRays_distance_zero_counterexample:
  "solidBorder ring3 \<and> insideBorder (viewer 32 48) ring3
   \<and> calcRays exactRound (Suc 0) (viewer 32 48) 2 ring3
       = Inr ([\<lparr>distance = 0, color = 1, alignment = vertical\<rparr>,
               \<lparr>distance = 0, color = 1, alignment = vertical\<rparr>,
               \<lparr>distance = 0, color = 1, alignment = vertical\<rparr>],
              [(32, 48), (32, 48), (32, 48)])
   \<and> calcRays exactRound (Suc (Suc 0)) (viewer 48 48) 2 open3 = Inl OutOfRange
   \<and> calcRays exactRound (Suc 0) (viewer 48 80) 2 ring3 = Inl OutOfRange
   \<and> calcRays exactRound (Suc 0) (viewerFacingRight 80 48) 2 ring3 = Inl OutOfRange
   \<and> calcRays exactRound (Suc 0) (viewer (- 16) 48) 2 ring3 = Inl OutOfRange
   \<and> calcRays exactRound (Suc 0) (viewer 48 48) 0 ring3 = Inl NonFinite"
  using solidBorder_ring3 insideBorder_ring3(2) ring3_on_line_calcRays [of 0]
    open3_calcRays [of 0] ring3_last_row_calcRays [of 0] ring3_last_column_calcRays [of 0]
    ring3_outside_calcRays [of 0]
    zero_width_calcRays [of exactRound "Suc 0" "viewer 48 48" ring3]
  by blast




end
